theory Spec2Isabelle
  imports Main "HOL-Library.Word"
begin

section \<open>The block fetcher of core/fetcher.go\<close>

text \<open>
  A shallow embedding of \<^verbatim>\<open>core/fetcher.go\<close>: the \<^verbatim>\<open>BlockFetcher\<close> that speaks to a
  Core node through a \<^verbatim>\<open>Client\<close>, reassembles streamed block parts and forwards new
  blocks on a subscription.

  Conventions of the embedding.
  \<^item> A Go pointer that the code compares with \<^verbatim>\<open>nil\<close> is an \<open>option\<close> (\<open>None\<close> is
    \<^verbatim>\<open>nil\<close>) or dereferences: \<^verbatim>\<open>height *int64\<close>, the unary responses, the pointer
    fields of the responses (the \<^verbatim>\<open>SyncInfo\<close> of a status reply and the \<^verbatim>\<open>BlockPart\<close> of a
    streamed response among them), the slice \<^verbatim>\<open>hash\<close> (a nil slice is \<open>None\<close>, an empty non-nil slice
    is \<open>Some []\<close>), and the fields \<^verbatim>\<open>cancel\<close> and \<^verbatim>\<open>doneCh\<close> of the fetcher.
  \<^item> A Go result pair \<^verbatim>\<open>(value, error)\<close> is a sum \<open>error + value\<close> where every
    return statement sets exactly one of the two, and a pair of options where the code
    can return both as \<^verbatim>\<open>nil\<close>.
  \<^item> The Core node is a state \<open>'w\<close> that every remote call may change; every remote
    call is also appended to the trace of the run.
  \<^item> A stream is the script of what its successive \<^verbatim>\<open>Recv\<close> calls return; a
    \<^verbatim>\<open>Recv\<close> past the end of the script does not return (\<open>Blocks\<close>).
  \<^item> The context a call is given belongs to the surroundings: its cancellation shows as
    the error that the client or the stream returns, and, in the receive loop and in
    \<^verbatim>\<open>Stop\<close>, as what a \<^verbatim>\<open>select\<close> finds ready.
\<close>

subsection \<open>Data\<close>

type_synonym int64 = "64 word"
type_synonym uint32 = "32 word"
type_synonym bytes = "8 word list"

text \<open>
  Errors. \<open>TransportError\<close> and \<open>EOF\<close> come from the client and its streams,
  \<open>DecodeError\<close> from the converters of the consensus library and from
  \<^verbatim>\<open>proto.Unmarshal\<close>. The others are built by the fetcher with \<^verbatim>\<open>fmt.Errorf\<close>; where
  the format has a \<^verbatim>\<open>%d\<close>, the constructor carries the operand the code passes for it,
  which in every case is the pointer \<^verbatim>\<open>height\<close> (a \<^verbatim>\<open>*int64\<close>), not the resolved
  height.
\<close>

datatype error =
    TransportError string
  | EOF
  | DecodeError string
  | ErrPartSetUnexpectedIndex
  | ErrNilHash
  | ErrCommitNotFound "int64 option"
  | ErrValidatorSetNotFound "int64 option"
  | ErrGettingCommit "int64 option" error
  | ErrGettingValidatorSet "int64 option" error
  | ErrUnsubscribe error
  | ContextCanceled
  | DeadlineExceeded

text \<open>The messages of package \<^verbatim>\<open>tmproto\<close> (wire form), as far as the fetcher reads them.\<close>

record pb_Part =
  Index :: uint32
  Bytes :: bytes

record pb_Commit =
  pb_Height :: int64
  pb_Signatures :: bytes

record pb_ValidatorSet =
  pb_Validators :: bytes

record pb_BlockMeta =
  pb_BlockSize :: int64

record pb_Block =
  pb_Header :: bytes
  pb_Data :: bytes

text \<open>The values of package \<^verbatim>\<open>types\<close> (decoded form).\<close>

record tm_Commit =
  Height :: int64
  Signatures :: bytes

record tm_ValidatorSet =
  Validators :: bytes

record tm_BlockMeta =
  BlockSize :: int64

record tm_Block =
  Header :: bytes
  Data :: bytes

record ResultSignedBlock =
  sb_Header :: bytes
  sb_Commit :: tm_Commit
  sb_Data :: bytes
  sb_ValidatorSet :: tm_ValidatorSet

record EventDataSignedBlock =
  ev_Header :: bytes
  ev_Commit :: tm_Commit
  ev_ValidatorSet :: tm_ValidatorSet
  ev_Data :: bytes

text \<open>The responses of package \<^verbatim>\<open>coregrpc\<close>.\<close>

record rpc_SyncInfo =
  LatestBlockHeight :: int64
  CatchingUp :: bool

record StatusResponse =
  SyncInfo :: "rpc_SyncInfo option"

record CommitResponse =
  res_Commit :: "pb_Commit option"

record ValidatorSetResponse =
  res_ValidatorSet :: "pb_ValidatorSet option"

record BlockByHeightResponse =
  BlockMeta :: "pb_BlockMeta option"
  Commit_field :: "pb_Commit option"
  ValidatorSet_field :: "pb_ValidatorSet option"
  BlockPart :: "pb_Part option"
  IsLast :: bool

record BlockByHashResponse =
  hash_BlockPart :: "pb_Part option"
  hash_IsLast :: bool

record NewHeightEvent =
  ev_Height :: int64

text \<open>A stream: what each \<^verbatim>\<open>Recv\<close> returns, in order.\<close>

type_synonym 'a stream = "(error + 'a) list"

text \<open>
  The converters of the consensus library and \<^verbatim>\<open>proto.Unmarshal\<close> are not part of this
  repository: they are parameters of the model. Each takes the pointer it is given
  (\<open>None\<close> for \<^verbatim>\<open>nil\<close>) and returns an error or a value.
\<close>

record types_lib =
  BlockMetaFromProto :: "pb_BlockMeta option \<Rightarrow> error + tm_BlockMeta"
  CommitFromProto :: "pb_Commit option \<Rightarrow> error + tm_Commit"
  ValidatorSetFromProto :: "pb_ValidatorSet option \<Rightarrow> error + tm_ValidatorSet"
  Unmarshal :: "bytes \<Rightarrow> error + pb_Block"
  BlockFromProto :: "pb_Block \<Rightarrow> error + tm_Block"

subsection \<open>The client, the trace and the state of a run\<close>

datatype request =
    StatusRequest
  | CommitRequest int64
  | ValidatorSetRequest int64
  | BlockByHeightRequest int64
  | BlockByHashRequest bytes
  | SubscribeNewHeightsRequest

text \<open>
  The interface \<^verbatim>\<open>Client\<close>: each operation reads and changes the Core node \<open>'w\<close>.
  A unary response is a pointer, so \<open>Inr None\<close> is the reply \<^verbatim>\<open>(nil, nil)\<close>.
\<close>

record 'w Client =
  client_Status :: "'w \<Rightarrow> (error + StatusResponse option) \<times> 'w"
  client_Commit :: "int64 \<Rightarrow> 'w \<Rightarrow> (error + CommitResponse option) \<times> 'w"
  client_ValidatorSet :: "int64 \<Rightarrow> 'w \<Rightarrow> (error + ValidatorSetResponse option) \<times> 'w"
  client_BlockByHeight :: "int64 \<Rightarrow> 'w \<Rightarrow> (error + BlockByHeightResponse stream) \<times> 'w"
  client_BlockByHash :: "bytes \<Rightarrow> 'w \<Rightarrow> (error + BlockByHashResponse stream) \<times> 'w"
  client_SubscribeNewHeights :: "'w \<Rightarrow> (error + NewHeightEvent stream) \<times> 'w"

text \<open>
  What a run does that others can observe: remote calls, the cancellation of a context,
  a send on or the close of a channel, a log line. Contexts and channels are named by
  numbers.
\<close>

datatype action =
    Call request
  | Cancel nat
  | Send nat EventDataSignedBlock
  | Close nat
  | Log string

text \<open>
  The state: the Core node, the trace so far, the two mutable fields of the
  \<^verbatim>\<open>BlockFetcher\<close> struct, and the next unused name for a context or channel.
\<close>

record 'w state =
  world :: 'w
  trace :: "action list"
  doneCh :: "nat option"
  cancel :: "nat option"
  fresh :: nat

text \<open>How a call of the model ends: it returns, it panics, or it does not return.\<close>

datatype 'a outcome = Returns 'a | Panics | Blocks

definition rpc :: "request \<Rightarrow> ('w \<Rightarrow> 'r \<times> 'w) \<Rightarrow> 'w state \<Rightarrow> 'r \<times> 'w state" where
  "rpc rq f s = (case f (world s) of (r, w') \<Rightarrow> (r, s\<lparr>world := w', trace := trace s @ [Call rq]\<rparr>))"

text \<open>\<^verbatim>\<open>NewBlockFetcher\<close>: only the client is set; \<^verbatim>\<open>doneCh\<close> and \<^verbatim>\<open>cancel\<close> are nil.\<close>

definition NewBlockFetcher :: "'w \<Rightarrow> 'w state" where
  "NewBlockFetcher w = \<lparr>world = w, trace = [], doneCh = None, cancel = None, fresh = 0\<rparr>"

subsection \<open>Height resolution\<close>

text \<open>
  \<^verbatim>\<open>resolveHeight\<close>: a non-nil pointer is dereferenced; for nil the status of the node
  is queried and \<^verbatim>\<open>status.SyncInfo.LatestBlockHeight\<close> is read with no check: a nil reply, or
  a reply whose \<^verbatim>\<open>SyncInfo\<close> is nil, is a nil dereference.
\<close>

definition resolveHeight :: "'w Client \<Rightarrow> int64 option \<Rightarrow> 'w state \<Rightarrow> (error + int64) outcome \<times> 'w state" where
  "resolveHeight c height s =
     (case height of
        Some h \<Rightarrow> (Returns (Inr h), s)
      | None \<Rightarrow>
          (case rpc StatusRequest (client_Status c) s of
             (Inl err, s') \<Rightarrow> (Returns (Inl err), s')
           | (Inr None, s') \<Rightarrow> (Panics, s')
           | (Inr (Some status), s') \<Rightarrow>
               (case SyncInfo status of
                  None \<Rightarrow> (Panics, s')
                | Some info \<Rightarrow> (Returns (Inr (LatestBlockHeight info)), s'))))"

subsection \<open>Commit, validator set and block info\<close>

text \<open>
  \<^verbatim>\<open>Commit\<close>: resolve the height, query the commit at it, convert the reply. The guard
  \<^verbatim>\<open>res != nil && res.Commit == nil\<close> lets a nil \<^verbatim>\<open>res\<close> through to \<^verbatim>\<open>res.Commit\<close>, a nil
  dereference. The operand of \<^verbatim>\<open>%d\<close> in the error is the pointer \<^verbatim>\<open>height\<close>.
\<close>

definition Commit :: "'w Client \<Rightarrow> types_lib \<Rightarrow> int64 option \<Rightarrow> 'w state \<Rightarrow> (error + tm_Commit) outcome \<times> 'w state" where
  "Commit c L height s =
     (case resolveHeight c height s of
        (Panics, s1) \<Rightarrow> (Panics, s1)
      | (Blocks, s1) \<Rightarrow> (Blocks, s1)
      | (Returns (Inl err), s1) \<Rightarrow> (Returns (Inl err), s1)
      | (Returns (Inr blockHeight), s1) \<Rightarrow>
          (case rpc (CommitRequest blockHeight) (client_Commit c blockHeight) s1 of
             (Inl err, s2) \<Rightarrow> (Returns (Inl err), s2)
           | (Inr None, s2) \<Rightarrow> (Panics, s2)
           | (Inr (Some res), s2) \<Rightarrow>
               (case res_Commit res of
                  None \<Rightarrow> (Returns (Inl (ErrCommitNotFound height)), s2)
                | Some cp \<Rightarrow>
                    (case CommitFromProto L (Some cp) of
                       Inl err \<Rightarrow> (Returns (Inl err), s2)
                     | Inr commit \<Rightarrow> (Returns (Inr commit), s2)))))"

text \<open>\<^verbatim>\<open>ValidatorSet\<close>: the same shape.\<close>

definition ValidatorSet :: "'w Client \<Rightarrow> types_lib \<Rightarrow> int64 option \<Rightarrow> 'w state \<Rightarrow> (error + tm_ValidatorSet) outcome \<times> 'w state" where
  "ValidatorSet c L height s =
     (case resolveHeight c height s of
        (Panics, s1) \<Rightarrow> (Panics, s1)
      | (Blocks, s1) \<Rightarrow> (Blocks, s1)
      | (Returns (Inl err), s1) \<Rightarrow> (Returns (Inl err), s1)
      | (Returns (Inr blockHeight), s1) \<Rightarrow>
          (case rpc (ValidatorSetRequest blockHeight) (client_ValidatorSet c blockHeight) s1 of
             (Inl err, s2) \<Rightarrow> (Returns (Inl err), s2)
           | (Inr None, s2) \<Rightarrow> (Panics, s2)
           | (Inr (Some res), s2) \<Rightarrow>
               (case res_ValidatorSet res of
                  None \<Rightarrow> (Returns (Inl (ErrValidatorSetNotFound height)), s2)
                | Some vp \<Rightarrow>
                    (case ValidatorSetFromProto L (Some vp) of
                       Inl err \<Rightarrow> (Returns (Inl err), s2)
                     | Inr validatorSet \<Rightarrow> (Returns (Inr validatorSet), s2)))))"

text \<open>
  \<^verbatim>\<open>GetBlockInfo\<close>: the commit at \<^verbatim>\<open>height\<close>, then the validator set at
  \<^verbatim>\<open>&commit.Height\<close>. Both errors are wrapped with the pointer \<^verbatim>\<open>height\<close> as operand.
\<close>

definition GetBlockInfo :: "'w Client \<Rightarrow> types_lib \<Rightarrow> int64 option \<Rightarrow> 'w state \<Rightarrow> (error + tm_Commit \<times> tm_ValidatorSet) outcome \<times> 'w state" where
  "GetBlockInfo c L height s =
     (case Commit c L height s of
        (Panics, s1) \<Rightarrow> (Panics, s1)
      | (Blocks, s1) \<Rightarrow> (Blocks, s1)
      | (Returns (Inl err), s1) \<Rightarrow> (Returns (Inl (ErrGettingCommit height err)), s1)
      | (Returns (Inr commit), s1) \<Rightarrow>
          (case ValidatorSet c L (Some (Height commit)) s1 of
             (Panics, s2) \<Rightarrow> (Panics, s2)
           | (Blocks, s2) \<Rightarrow> (Blocks, s2)
           | (Returns (Inl err), s2) \<Rightarrow> (Returns (Inl (ErrGettingValidatorSet height err)), s2)
           | (Returns (Inr valSet), s2) \<Rightarrow> (Returns (Inr (commit, valSet)), s2)))"

text \<open>\<^verbatim>\<open>IsSyncing\<close>: one status round trip; \<^verbatim>\<open>resp.SyncInfo.CatchingUp\<close> is read with no
  check, as in \<^verbatim>\<open>resolveHeight\<close>.\<close>

definition IsSyncing :: "'w Client \<Rightarrow> 'w state \<Rightarrow> (error + bool) outcome \<times> 'w state" where
  "IsSyncing c s =
     (case rpc StatusRequest (client_Status c) s of
        (Inl err, s') \<Rightarrow> (Returns (Inl err), s')
      | (Inr None, s') \<Rightarrow> (Panics, s')
      | (Inr (Some resp), s') \<Rightarrow>
          (case SyncInfo resp of
             None \<Rightarrow> (Panics, s')
           | Some info \<Rightarrow> (Returns (Inr (CatchingUp info)), s')))"

subsection \<open>The part accumulator of the consensus library\<close>

text \<open>
  Modelled from the spec: the accumulator \<^verbatim>\<open>types.PartSet\<close> of the consensus library,
  with \<^verbatim>\<open>NewPartSetFromHeader\<close>, \<^verbatim>\<open>AddPartWithoutProof\<close>, \<^verbatim>\<open>IsComplete\<close> and
  \<^verbatim>\<open>GetReader\<close>, is not among the sources of the repository. The spec has it sized to the
  number of parts, each payload appended at its declared index, a collision or an index
  out of range signalled by the accumulator, and the full byte stream read once all parts
  are in. The two signals are the two results \<^verbatim>\<open>(ok, err)\<close> that \<^verbatim>\<open>partsToBlock\<close>
  tests: an index at or beyond the total gives \<^verbatim>\<open>(false, ErrPartSetUnexpectedIndex)\<close>, a
  slot already filled gives \<^verbatim>\<open>(false, nil)\<close>, as the library's \<^verbatim>\<open>AddPart\<close> does. The
  reader is refused (a panic) unless the count of parts equals the total; it is set up on
  the first slot, so that it panics on a set of no parts; it reads the slots in index
  order.
\<close>

record PartSet =
  ps_total :: uint32
  ps_parts :: "bytes option list"
  ps_count :: uint32

definition NewPartSetFromHeader :: "uint32 \<Rightarrow> PartSet" where
  "NewPartSetFromHeader n =
     \<lparr>ps_total = n, ps_parts = replicate (unat n) None, ps_count = 0\<rparr>"

definition AddPartWithoutProof :: "PartSet \<Rightarrow> pb_Part \<Rightarrow> (bool \<times> error option) \<times> PartSet" where
  "AddPartWithoutProof ps part =
     (if ps_total ps \<le> Index part then ((False, Some ErrPartSetUnexpectedIndex), ps)
      else if ps_parts ps ! unat (Index part) \<noteq> None then ((False, None), ps)
      else ((True, None),
            ps\<lparr>ps_parts := (ps_parts ps)[unat (Index part) := Some (Bytes part)],
               ps_count := ps_count ps + 1\<rparr>))"

definition IsComplete :: "PartSet \<Rightarrow> bool" where
  "IsComplete ps = (ps_count ps = ps_total ps)"

text \<open>
  \<^verbatim>\<open>io.ReadAll(partSet.GetReader())\<close>: \<open>None\<close> is the panic of \<^verbatim>\<open>GetReader\<close> on an
  incomplete set, on a set of no parts (the reader starts by reading slot 0) or on an
  empty slot; the read itself cannot fail.
\<close>

definition GetReader :: "PartSet \<Rightarrow> bytes option" where
  "GetReader ps =
     (if IsComplete ps
      then (case ps_parts ps of
              [] \<Rightarrow> None
            | _ # _ \<Rightarrow> map_option concat (those (ps_parts ps)))
      else None)"

text \<open>The index a part declares, as a position.\<close>

abbreviation idx :: "pb_Part \<Rightarrow> nat" where
  "idx p \<equiv> unat (Index p)"

subsection \<open>Reassembly\<close>

text \<open>
  The loop of \<^verbatim>\<open>partsToBlock\<close> over the parts, which are pointers: \<^verbatim>\<open>part.Index\<close> on a
  nil part is a nil dereference. \<open>Inl err\<close> is the early return \<^verbatim>\<open>return nil, err\<close>: both
  exits of the loop body return the variable \<^verbatim>\<open>err\<close>, the second one after
  \<^verbatim>\<open>err != nil\<close> was found false.
\<close>

fun addParts :: "PartSet \<Rightarrow> pb_Part option list \<Rightarrow> (error option + PartSet) outcome" where
  "addParts partSet [] = Returns (Inr partSet)"
| "addParts partSet (None # parts) = Panics"
| "addParts partSet (Some part # parts) =
     (case AddPartWithoutProof partSet \<lparr>Index = Index part, Bytes = Bytes part\<rparr> of
        ((ok, err), partSet') \<Rightarrow>
          if err \<noteq> None then Returns (Inl err)
          else if \<not> ok then Returns (Inl err)
          else addParts partSet' parts)"

text \<open>The tail of \<^verbatim>\<open>partsToBlock\<close>: unmarshal the bytes, convert the message.\<close>

definition decodeBlock :: "types_lib \<Rightarrow> bytes \<Rightarrow> tm_Block option \<times> error option" where
  "decodeBlock L bz =
     (case Unmarshal L bz of
        Inl err \<Rightarrow> (None, Some err)
      | Inr pbb \<Rightarrow>
          (case BlockFromProto L pbb of
             Inl err \<Rightarrow> (None, Some err)
           | Inr block \<Rightarrow> (Some block, None)))"

text \<open>The bytes \<^verbatim>\<open>bz\<close> that \<^verbatim>\<open>partsToBlock\<close> reads from the accumulator.\<close>

definition partsToBytes :: "pb_Part option list \<Rightarrow> (error option + bytes) outcome" where
  "partsToBytes parts =
     (case addParts (NewPartSetFromHeader (of_nat (length parts))) parts of
        Panics \<Rightarrow> Panics
      | Blocks \<Rightarrow> Blocks
      | Returns (Inl err) \<Rightarrow> Returns (Inl err)
      | Returns (Inr partSet) \<Rightarrow>
          (case GetReader partSet of
             None \<Rightarrow> Panics
           | Some bz \<Rightarrow> Returns (Inr bz)))"

definition partsToBlock :: "types_lib \<Rightarrow> pb_Part option list \<Rightarrow> (tm_Block option \<times> error option) outcome" where
  "partsToBlock L parts =
     (case partsToBytes parts of
        Panics \<Rightarrow> Panics
      | Blocks \<Rightarrow> Blocks
      | Returns (Inl err) \<Rightarrow> Returns (None, err)
      | Returns (Inr bz) \<Rightarrow> Returns (decodeBlock L bz))"

subsection \<open>Receiving a block from a stream\<close>

text \<open>
  The loop \<^verbatim>\<open>for !isLast\<close> of both receivers: one \<^verbatim>\<open>Recv\<close> per turn, the part of the
  response appended as it is (nil or not), the flag taken from the response. The two receivers differ in the
  type of the response only, so the loop takes the two field selectors.
\<close>

fun recvParts :: "('r \<Rightarrow> pb_Part option) \<Rightarrow> ('r \<Rightarrow> bool) \<Rightarrow> bool \<Rightarrow> 'r stream \<Rightarrow> pb_Part option list \<Rightarrow> (error + pb_Part option list) outcome" where
  "recvParts part_of last_of True streamer parts = Returns (Inr parts)"
| "recvParts part_of last_of False [] parts = Blocks"
| "recvParts part_of last_of False (Inl err # streamer) parts = Returns (Inl err)"
| "recvParts part_of last_of False (Inr resp # streamer) parts =
     recvParts part_of last_of (last_of resp) streamer (parts @ [part_of resp])"

type_synonym block_by_height =
  "tm_Block option \<times> tm_BlockMeta option \<times> tm_Commit option \<times> tm_ValidatorSet option \<times> error option"

definition failed_by_height :: "error option \<Rightarrow> block_by_height" where
  "failed_by_height err = (None, None, None, None, err)"

definition receiveBlockByHeight :: "types_lib \<Rightarrow> BlockByHeightResponse stream \<Rightarrow> block_by_height outcome" where
  "receiveBlockByHeight L streamer =
     (case streamer of
        [] \<Rightarrow> Blocks
      | Inl err # _ \<Rightarrow> Returns (failed_by_height (Some err))
      | Inr resp # streamer' \<Rightarrow>
          (case BlockMetaFromProto L (BlockMeta resp) of
             Inl err \<Rightarrow> Returns (failed_by_height (Some err))
           | Inr blockMeta \<Rightarrow>
          (case CommitFromProto L (Commit_field resp) of
             Inl err \<Rightarrow> Returns (failed_by_height (Some err))
           | Inr commit \<Rightarrow>
          (case ValidatorSetFromProto L (ValidatorSet_field resp) of
             Inl err \<Rightarrow> Returns (failed_by_height (Some err))
           | Inr validatorSet \<Rightarrow>
          (case recvParts BlockPart IsLast (IsLast resp) streamer' [BlockPart resp] of
             Panics \<Rightarrow> Panics
           | Blocks \<Rightarrow> Blocks
           | Returns (Inl err) \<Rightarrow> Returns (failed_by_height (Some err))
           | Returns (Inr parts) \<Rightarrow>
          (case partsToBlock L parts of
             Panics \<Rightarrow> Panics
           | Blocks \<Rightarrow> Blocks
           | Returns (block, Some err) \<Rightarrow> Returns (failed_by_height (Some err))
           | Returns (block, None) \<Rightarrow>
               Returns (block, Some blockMeta, Some commit, Some validatorSet, None)))))))"

definition receiveBlockByHash :: "types_lib \<Rightarrow> BlockByHashResponse stream \<Rightarrow> (tm_Block option \<times> error option) outcome" where
  "receiveBlockByHash L streamer =
     (case recvParts hash_BlockPart hash_IsLast False streamer [] of
        Panics \<Rightarrow> Panics
      | Blocks \<Rightarrow> Blocks
      | Returns (Inl err) \<Rightarrow> Returns (None, Some err)
      | Returns (Inr parts) \<Rightarrow> partsToBlock L parts)"

subsection \<open>Blocks by height and by hash\<close>

definition GetBlock :: "'w Client \<Rightarrow> types_lib \<Rightarrow> int64 option \<Rightarrow> 'w state \<Rightarrow> (tm_Block option \<times> error option) outcome \<times> 'w state" where
  "GetBlock c L height s =
     (case resolveHeight c height s of
        (Panics, s1) \<Rightarrow> (Panics, s1)
      | (Blocks, s1) \<Rightarrow> (Blocks, s1)
      | (Returns (Inl err), s1) \<Rightarrow> (Returns (None, Some err), s1)
      | (Returns (Inr blockHeight), s1) \<Rightarrow>
          (case rpc (BlockByHeightRequest blockHeight) (client_BlockByHeight c blockHeight) s1 of
             (Inl err, s2) \<Rightarrow> (Returns (None, Some err), s2)
           | (Inr streamer, s2) \<Rightarrow>
               (case receiveBlockByHeight L streamer of
                  Panics \<Rightarrow> (Panics, s2)
                | Blocks \<Rightarrow> (Blocks, s2)
                | Returns (block, _, _, _, Some err) \<Rightarrow> (Returns (None, Some err), s2)
                | Returns (block, _, _, _, None) \<Rightarrow> (Returns (block, None), s2))))"

text \<open>
  \<^verbatim>\<open>GetBlockByHash\<close>: the guard is \<^verbatim>\<open>hash == nil\<close>; \<^verbatim>\<open>Hash\<close> is a byte slice, and an
  empty slice that is not nil passes it.
\<close>

definition GetBlockByHash :: "'w Client \<Rightarrow> types_lib \<Rightarrow> bytes option \<Rightarrow> 'w state \<Rightarrow> (tm_Block option \<times> error option) outcome \<times> 'w state" where
  "GetBlockByHash c L hash s =
     (case hash of
        None \<Rightarrow> (Returns (None, Some ErrNilHash), s)
      | Some h \<Rightarrow>
          (case rpc (BlockByHashRequest h) (client_BlockByHash c h) s of
             (Inl err, s1) \<Rightarrow> (Returns (None, Some err), s1)
           | (Inr streamer, s1) \<Rightarrow>
               (case receiveBlockByHash L streamer of
                  Panics \<Rightarrow> (Panics, s1)
                | Blocks \<Rightarrow> (Blocks, s1)
                | Returns (block, Some err) \<Rightarrow> (Returns (None, Some err), s1)
                | Returns (block, None) \<Rightarrow> (Returns (block, None), s1))))"

text \<open>
  \<^verbatim>\<open>GetSignedBlock\<close>: as \<^verbatim>\<open>GetBlock\<close>, then the four fields are read through the
  pointers \<^verbatim>\<open>block\<close>, \<^verbatim>\<open>commit\<close> and \<^verbatim>\<open>validatorSet\<close>; a nil one is a nil dereference.
\<close>

definition GetSignedBlock :: "'w Client \<Rightarrow> types_lib \<Rightarrow> int64 option \<Rightarrow> 'w state \<Rightarrow> (error + ResultSignedBlock) outcome \<times> 'w state" where
  "GetSignedBlock c L height s =
     (case resolveHeight c height s of
        (Panics, s1) \<Rightarrow> (Panics, s1)
      | (Blocks, s1) \<Rightarrow> (Blocks, s1)
      | (Returns (Inl err), s1) \<Rightarrow> (Returns (Inl err), s1)
      | (Returns (Inr blockHeight), s1) \<Rightarrow>
          (case rpc (BlockByHeightRequest blockHeight) (client_BlockByHeight c blockHeight) s1 of
             (Inl err, s2) \<Rightarrow> (Returns (Inl err), s2)
           | (Inr streamer, s2) \<Rightarrow>
               (case receiveBlockByHeight L streamer of
                  Panics \<Rightarrow> (Panics, s2)
                | Blocks \<Rightarrow> (Blocks, s2)
                | Returns (_, _, _, _, Some err) \<Rightarrow> (Returns (Inl err), s2)
                | Returns (Some block, _, Some commit, Some validatorSet, None) \<Rightarrow>
                    (Returns (Inr \<lparr>sb_Header = Header block, sb_Commit = commit,
                                   sb_Data = Data block, sb_ValidatorSet = validatorSet\<rparr>), s2)
                | Returns (_, _, _, _, None) \<Rightarrow> (Panics, s2))))"

subsection \<open>The subscription\<close>

text \<open>
  \<^verbatim>\<open>SubscribeNewBlockEvent\<close> makes a cancellable context and the channel \<^verbatim>\<open>doneCh\<close> and
  stores both in the fetcher before it opens the stream of new heights. When the stream
  opens it makes the output channel, starts the receive loop as a goroutine and returns
  the channel. The model returns what the goroutine captures: its context, the two
  channels its deferred calls close, and the stream.
\<close>

record goroutine =
  g_ctx :: nat
  g_doneCh :: nat
  g_signedBlockCh :: nat
  g_subscription :: "NewHeightEvent stream"

definition SubscribeNewBlockEvent :: "'w Client \<Rightarrow> 'w state \<Rightarrow> (error + goroutine) \<times> 'w state" where
  "SubscribeNewBlockEvent c s =
     (let ctx = fresh s;
          dch = fresh s + 1;
          s1 = s\<lparr>cancel := Some ctx, doneCh := Some dch, fresh := fresh s + 2\<rparr>
      in case rpc SubscribeNewHeightsRequest (client_SubscribeNewHeights c) s1 of
           (Inl err, s2) \<Rightarrow> (Inl err, s2)
         | (Inr subscription, s2) \<Rightarrow>
             (Inr \<lparr>g_ctx = ctx, g_doneCh = dch, g_signedBlockCh = fresh s2,
                    g_subscription = subscription\<rparr>,
              s2\<lparr>fresh := fresh s2 + 1\<rparr>))"

text \<open>
  What one turn of the receive loop meets in its surroundings: whether the first
  \<^verbatim>\<open>select\<close> finds the context done, whether \<^verbatim>\<open>ctx.Err()\<close> is set when \<^verbatim>\<open>Recv\<close> fails
  (it decides the log line only), and how the second \<^verbatim>\<open>select\<close> ends: the event is taken
  by the consumer, the context is done first, or neither happens.
\<close>

datatype push = Delivered | CancelObserved | Stalled

record tick =
  ctx_done_at_select :: bool
  ctx_err_at_recv :: bool
  push_result :: push

definition logError :: "string \<Rightarrow> 'w state \<Rightarrow> 'w state" where
  "logError msg s = s\<lparr>trace := trace s @ [Log msg]\<rparr>"

text \<open>
  The deferred calls of the goroutine, in the order they run: \<^verbatim>\<open>close(signedBlockCh)\<close>,
  then \<^verbatim>\<open>close(f.doneCh)\<close>.
\<close>

definition runDeferred :: "nat \<Rightarrow> nat \<Rightarrow> 'w state \<Rightarrow> 'w state" where
  "runDeferred dch signedBlockCh s = s\<lparr>trace := trace s @ [Close signedBlockCh, Close dch]\<rparr>"

definition toEvent :: "ResultSignedBlock \<Rightarrow> EventDataSignedBlock" where
  "toEvent signedBlock =
     \<lparr>ev_Header = sb_Header signedBlock, ev_Commit = sb_Commit signedBlock,
      ev_ValidatorSet = sb_ValidatorSet signedBlock, ev_Data = sb_Data signedBlock\<rparr>"

text \<open>
  The receive loop, one \<open>tick\<close> per turn. With no tick left the loop is still running
  (\<open>Blocks\<close>). A panic of \<^verbatim>\<open>GetSignedBlock\<close> unwinds through the deferred calls.
\<close>

fun receiveLoop :: "'w Client \<Rightarrow> types_lib \<Rightarrow> nat \<Rightarrow> nat \<Rightarrow> tick list \<Rightarrow> NewHeightEvent stream \<Rightarrow> 'w state \<Rightarrow> unit outcome \<times> 'w state" where
  "receiveLoop c L dch signedBlockCh [] subscription s = (Blocks, s)"
| "receiveLoop c L dch signedBlockCh (t # ticks) subscription s =
     (if ctx_done_at_select t then (Returns (), runDeferred dch signedBlockCh s)
      else
        (case subscription of
           [] \<Rightarrow> (Blocks, s)
         | Inl err # _ \<Rightarrow>
             (Returns (),
              runDeferred dch signedBlockCh
                (if ctx_err_at_recv t then s
                 else logError ''fetcher: error receiving new height'' s))
         | Inr resp # subscription' \<Rightarrow>
             (case GetSignedBlock c L (Some (ev_Height resp)) s of
                (Blocks, s1) \<Rightarrow> (Blocks, s1)
              | (Panics, s1) \<Rightarrow> (Panics, runDeferred dch signedBlockCh s1)
              | (Returns (Inl err), s1) \<Rightarrow>
                  (Returns (),
                   runDeferred dch signedBlockCh
                     (logError ''fetcher: error receiving signed block'' s1))
              | (Returns (Inr signedBlock), s1) \<Rightarrow>
                  (case push_result t of
                     Delivered \<Rightarrow>
                       receiveLoop c L dch signedBlockCh ticks subscription'
                         (s1\<lparr>trace := trace s1 @ [Send signedBlockCh (toEvent signedBlock)]\<rparr>)
                   | CancelObserved \<Rightarrow> (Returns (), runDeferred dch signedBlockCh s1)
                   | Stalled \<Rightarrow> (Blocks, s1)))))"

definition runGoroutine :: "'w Client \<Rightarrow> types_lib \<Rightarrow> goroutine \<Rightarrow> tick list \<Rightarrow> 'w state \<Rightarrow> unit outcome \<times> 'w state" where
  "runGoroutine c L g ticks s =
     receiveLoop c L (g_doneCh g) (g_signedBlockCh g) ticks (g_subscription g) s"

text \<open>
  \<^verbatim>\<open>Stop\<close>: call \<^verbatim>\<open>f.cancel\<close>, then wait in a \<^verbatim>\<open>select\<close> for \<^verbatim>\<open>f.doneCh\<close> or for the
  caller's context. Calling a nil \<^verbatim>\<open>cancel\<close> panics. The surroundings of the wait: what
  the receive loop does after the cancellation (\<open>loop_actions\<close>), the error of the
  caller's context if that context ends (\<open>caller_done\<close>), and the case \<^verbatim>\<open>select\<close> takes
  when both are ready (\<open>pick_doneCh\<close>). A receive on \<^verbatim>\<open>doneCh\<close> is ready once the channel
  has been closed; on a nil channel it never is.
\<close>

record stop_env =
  loop_actions :: "action list"
  caller_done :: "error option"
  pick_doneCh :: bool

definition doneCh_closed :: "'w state \<Rightarrow> bool" where
  "doneCh_closed s = (case doneCh s of None \<Rightarrow> False | Some d \<Rightarrow> Close d \<in> set (trace s))"

definition Stop :: "stop_env \<Rightarrow> 'w state \<Rightarrow> error option outcome \<times> 'w state" where
  "Stop env s =
     (case cancel s of
        None \<Rightarrow> (Panics, s)
      | Some ctx \<Rightarrow>
          (let s1 = s\<lparr>trace := trace s @ [Cancel ctx]\<rparr>;
               s2 = s1\<lparr>trace := trace s1 @ loop_actions env\<rparr>
           in case caller_done env of
                None \<Rightarrow> if doneCh_closed s2 then (Returns None, s2) else (Blocks, s2)
              | Some err \<Rightarrow>
                  if doneCh_closed s2 \<and> pick_doneCh env then (Returns None, s2)
                  else (Returns (Some (ErrUnsubscribe err)), s2)))"

subsection \<open>A small Core node for concrete runs\<close>

text \<open>
  A library whose wire format is one header byte followed by the data, and a client whose
  node is its latest height: every status query is followed by the production of a block,
  and commits and validator sets exist for the heights in \<open>known\<close>.
\<close>

definition demo_lib :: types_lib where
  "demo_lib =
     \<lparr>BlockMetaFromProto =
        (\<lambda>p. case p of None \<Rightarrow> Inl (DecodeError ''nil BlockMeta'')
                     | Some m \<Rightarrow> Inr \<lparr>BlockSize = pb_BlockSize m\<rparr>),
      CommitFromProto =
        (\<lambda>p. case p of None \<Rightarrow> Inl (DecodeError ''nil Commit'')
                     | Some cp \<Rightarrow> Inr \<lparr>Height = pb_Height cp, Signatures = pb_Signatures cp\<rparr>),
      ValidatorSetFromProto =
        (\<lambda>p. case p of None \<Rightarrow> Inl (DecodeError ''nil ValidatorSet'')
                     | Some vp \<Rightarrow> Inr \<lparr>Validators = pb_Validators vp\<rparr>),
      Unmarshal =
        (\<lambda>bz. case bz of [] \<Rightarrow> Inl (DecodeError ''empty message'')
                       | b # bs \<Rightarrow> Inr \<lparr>pb_Header = [b], pb_Data = bs\<rparr>),
      BlockFromProto = (\<lambda>pbb. Inr \<lparr>Header = pb_Header pbb, Data = pb_Data pbb\<rparr>)\<rparr>"

definition demo_client :: "int64 list \<Rightarrow> BlockByHeightResponse stream \<Rightarrow> BlockByHashResponse stream \<Rightarrow> NewHeightEvent stream \<Rightarrow> int64 Client" where
  "demo_client known by_height by_hash heights =
     \<lparr>client_Status = (\<lambda>w.
        (Inr (Some \<lparr>SyncInfo = Some \<lparr>LatestBlockHeight = w, CatchingUp = False\<rparr>\<rparr>), w + 1)),
      client_Commit = (\<lambda>h w.
        (Inr (Some \<lparr>res_Commit =
           (if h \<in> set known then Some \<lparr>pb_Height = h, pb_Signatures = [1]\<rparr> else None)\<rparr>), w)),
      client_ValidatorSet = (\<lambda>h w.
        (Inr (Some \<lparr>res_ValidatorSet =
           (if h \<in> set known then Some \<lparr>pb_Validators = [ucast h]\<rparr> else None)\<rparr>), w)),
      client_BlockByHeight = (\<lambda>h w. (Inr by_height, w)),
      client_BlockByHash = (\<lambda>h w. (Inr by_hash, w)),
      client_SubscribeNewHeights = (\<lambda>w. (Inr heights, w))\<rparr>"

text \<open>The first response of a by-height stream and a later one.\<close>

definition first_resp :: "pb_Part \<Rightarrow> bool \<Rightarrow> BlockByHeightResponse" where
  "first_resp part isLast =
     \<lparr>BlockMeta = Some \<lparr>pb_BlockSize = 2\<rparr>,
      Commit_field = Some \<lparr>pb_Height = 100, pb_Signatures = [1]\<rparr>,
      ValidatorSet_field = Some \<lparr>pb_Validators = [100]\<rparr>,
      BlockPart = Some part, IsLast = isLast\<rparr>"

definition next_resp :: "pb_Part \<Rightarrow> bool \<Rightarrow> BlockByHeightResponse" where
  "next_resp part isLast =
     \<lparr>BlockMeta = None, Commit_field = None, ValidatorSet_field = None,
      BlockPart = Some part, IsLast = isLast\<rparr>"

text \<open>A turn of the receive loop with no cancellation in sight and a consumer that takes
  the event; a fetcher after a successful subscription; two surroundings of \<^verbatim>\<open>Stop\<close>.\<close>

definition tick0 :: tick where
  "tick0 = \<lparr>ctx_done_at_select = False, ctx_err_at_recv = False, push_result = Delivered\<rparr>"

definition subscribed :: "int64 state" where
  "subscribed =
     \<lparr>world = 100, trace = [Call SubscribeNewHeightsRequest], doneCh = Some 1, cancel = Some 0,
      fresh = 3\<rparr>"

definition loop_exits :: stop_env where
  "loop_exits = \<lparr>loop_actions = [Close 2, Close 1], caller_done = None, pick_doneCh = False\<rparr>"

definition deadline_first :: stop_env where
  "deadline_first =
     \<lparr>loop_actions = [], caller_done = Some DeadlineExceeded, pick_doneCh = False\<rparr>"

text \<open>A turn that finds the context done; a by-height stream of two parts in sequence; a
  stream of two new heights; the goroutine of a subscription to it; a stream of heights
  with a failed \<^verbatim>\<open>Recv\<close> between two heights; the signed block of the two parts; a node
  whose block stream breaks at once and one that serves the two parts.\<close>

definition tick_cancelled :: tick where
  "tick_cancelled = \<lparr>ctx_done_at_select = True, ctx_err_at_recv = True, push_result = CancelObserved\<rparr>"

definition whole_stream :: "BlockByHeightResponse stream" where
  "whole_stream =
     [Inr (first_resp \<lparr>Index = 0, Bytes = [120]\<rparr> False),
      Inr (next_resp \<lparr>Index = 1, Bytes = [121]\<rparr> True)]"

definition two_heights :: "NewHeightEvent stream" where
  "two_heights = [Inr \<lparr>ev_Height = 100\<rparr>, Inr \<lparr>ev_Height = 101\<rparr>]"

definition spawned :: goroutine where
  "spawned = \<lparr>g_ctx = 0, g_doneCh = 1, g_signedBlockCh = 2, g_subscription = two_heights\<rparr>"

definition interrupted_heights :: "NewHeightEvent stream" where
  "interrupted_heights = [Inr \<lparr>ev_Height = 100\<rparr>, Inl EOF, Inr \<lparr>ev_Height = 101\<rparr>]"

definition signed100 :: ResultSignedBlock where
  "signed100 =
     \<lparr>sb_Header = [120], sb_Commit = \<lparr>Height = 100, Signatures = [1]\<rparr>, sb_Data = [121],
      sb_ValidatorSet = \<lparr>Validators = [100]\<rparr>\<rparr>"

definition failing_node :: "int64 Client" where
  "failing_node = demo_client [] [Inl (TransportError ''reset'')] [] two_heights"

definition serving_node :: "int64 Client" where
  "serving_node = demo_client [] whole_stream [] two_heights"

text \<open>A by-height stream that breaks at its third \<^verbatim>\<open>Recv\<close>.\<close>

definition broken_stream :: "BlockByHeightResponse stream" where
  "broken_stream =
     [Inr (first_resp \<lparr>Index = 0, Bytes = [120]\<rparr> False),
      Inr (next_resp \<lparr>Index = 1, Bytes = [121]\<rparr> False),
      Inl (TransportError ''reset''),
      Inr (next_resp \<lparr>Index = 3, Bytes = [123]\<rparr> True)]"

section \<open>Properties\<close>

subsection \<open>What the operations leave alone\<close>

lemmas demo_defs = demo_client_def demo_lib_def NewBlockFetcher_def first_resp_def next_resp_def

lemma resolveHeight_frame:
  "doneCh (snd (resolveHeight c height s)) = doneCh s
   \<and> cancel (snd (resolveHeight c height s)) = cancel s
   \<and> fresh (snd (resolveHeight c height s)) = fresh s"
  by (simp add: resolveHeight_def rpc_def split: option.splits prod.splits sum.splits)

lemma GetBlock_frame:
  "doneCh (snd (GetBlock c L height s)) = doneCh s
   \<and> cancel (snd (GetBlock c L height s)) = cancel s
   \<and> fresh (snd (GetBlock c L height s)) = fresh s"
  using resolveHeight_frame [of c height s]
  by (auto simp: GetBlock_def rpc_def split: prod.splits sum.splits option.splits outcome.splits)

lemma GetSignedBlock_frame:
  "doneCh (snd (GetSignedBlock c L height s)) = doneCh s
   \<and> cancel (snd (GetSignedBlock c L height s)) = cancel s
   \<and> fresh (snd (GetSignedBlock c L height s)) = fresh s"
  using resolveHeight_frame [of c height s]
  by (auto simp: GetSignedBlock_def rpc_def split: prod.splits sum.splits option.splits outcome.splits)

lemma GetBlockByHash_frame:
  "doneCh (snd (GetBlockByHash c L hash s)) = doneCh s
   \<and> cancel (snd (GetBlockByHash c L hash s)) = cancel s"
  by (auto simp: GetBlockByHash_def rpc_def split: prod.splits sum.splits option.splits outcome.splits)

lemma Commit_frame:
  "doneCh (snd (Commit c L height s)) = doneCh s \<and> cancel (snd (Commit c L height s)) = cancel s"
  using resolveHeight_frame [of c height s]
  by (auto simp: Commit_def rpc_def split: prod.splits sum.splits option.splits outcome.splits)

lemma ValidatorSet_frame:
  "doneCh (snd (ValidatorSet c L height s)) = doneCh s
   \<and> cancel (snd (ValidatorSet c L height s)) = cancel s"
  using resolveHeight_frame [of c height s]
  by (auto simp: ValidatorSet_def rpc_def split: prod.splits sum.splits option.splits outcome.splits)

lemma GetBlockInfo_frame:
  "doneCh (snd (GetBlockInfo c L height s)) = doneCh s
   \<and> cancel (snd (GetBlockInfo c L height s)) = cancel s"
proof -
  obtain r s1 where cm: "Commit c L height s = (r, s1)" by (cases "Commit c L height s")
  with Commit_frame [of c L height s] have f1: "doneCh s1 = doneCh s" "cancel s1 = cancel s"
    by simp_all
  show ?thesis
  proof (cases r)
    case (Returns res)
    show ?thesis
    proof (cases res)
      case (Inl err)
      with cm Returns f1 show ?thesis by (simp add: GetBlockInfo_def)
    next
      case (Inr commit)
      with cm Returns f1 ValidatorSet_frame [of c L "Some (Height commit)" s1] show ?thesis
        by (auto simp: GetBlockInfo_def split: prod.splits sum.splits outcome.splits)
    qed
  next
    case Panics
    with cm f1 show ?thesis by (simp add: GetBlockInfo_def)
  next
    case Blocks
    with cm f1 show ?thesis by (simp add: GetBlockInfo_def)
  qed
qed

lemma IsSyncing_frame:
  "doneCh (snd (IsSyncing c s)) = doneCh s \<and> cancel (snd (IsSyncing c s)) = cancel s"
  by (simp add: IsSyncing_def rpc_def split: prod.splits sum.splits option.splits)

subsection \<open>Block info\<close>

text \<open>
  C1. Once the commit query of \<^verbatim>\<open>GetBlockInfo\<close> has returned a commit, the one remote
  call that follows is the validator-set query at the height the commit reports
  (\<^verbatim>\<open>commit.Height\<close>), whatever the height argument was; no status query comes between.
  A validator set that \<^verbatim>\<open>GetBlockInfo\<close> returns is the one the node gave for that height,
  next to the commit that was fetched.
\<close>

theorem GetBlockInfo_validator_set_at_commit_height:
  assumes "Commit c L height s = (Returns (Inr commit), s1)"
  shows "trace (snd (GetBlockInfo c L height s)) = trace s1 @ [Call (ValidatorSetRequest (Height commit))]
       \<and> world (snd (GetBlockInfo c L height s)) = snd (client_ValidatorSet c (Height commit) (world s1))
       \<and> (\<forall>cm valSet. fst (GetBlockInfo c L height s) = Returns (Inr (cm, valSet)) \<longrightarrow>
            cm = commit \<and>
            (\<exists>res vp. fst (client_ValidatorSet c (Height commit) (world s1)) = Inr (Some res)
                     \<and> res_ValidatorSet res = Some vp
                     \<and> ValidatorSetFromProto L (Some vp) = Inr valSet))"
  using assms
  by (auto simp: GetBlockInfo_def ValidatorSet_def resolveHeight_def rpc_def
           split: prod.splits sum.splits option.splits outcome.splits)

text \<open>
  A run with a nil height on a node at height 100 that produces a block after the status
  query: the commit is the one of height 100 and the validator set is asked for at 100.
\<close>

theorem GetBlockInfo_validator_set_at_commit_height_witness:
  "Commit (demo_client [100, 101] [] [] []) demo_lib None (NewBlockFetcher 100) =
     (Returns (Inr \<lparr>Height = 100, Signatures = [1]\<rparr>),
      \<lparr>world = 101, trace = [Call StatusRequest, Call (CommitRequest 100)],
       doneCh = None, cancel = None, fresh = 0\<rparr>)
   \<and> trace (snd (GetBlockInfo (demo_client [100, 101] [] [] []) demo_lib None (NewBlockFetcher 100))) =
       [Call StatusRequest, Call (CommitRequest 100), Call (ValidatorSetRequest 100)]
   \<and> fst (GetBlockInfo (demo_client [100, 101] [] [] []) demo_lib None (NewBlockFetcher 100)) =
       Returns (Inr (\<lparr>Height = 100, Signatures = [1]\<rparr>, \<lparr>Validators = [100]\<rparr>))"
proof -
  have h: "Commit (demo_client [100, 101] [] [] []) demo_lib None (NewBlockFetcher 100) =
     (Returns (Inr \<lparr>Height = 100, Signatures = [1]\<rparr>),
      \<lparr>world = 101, trace = [Call StatusRequest, Call (CommitRequest 100)],
       doneCh = None, cancel = None, fresh = 0\<rparr>)"
    by (simp add: Commit_def resolveHeight_def rpc_def demo_defs)
  have r: "fst (GetBlockInfo (demo_client [100, 101] [] [] []) demo_lib None (NewBlockFetcher 100)) =
       Returns (Inr (\<lparr>Height = 100, Signatures = [1]\<rparr>, \<lparr>Validators = [100]\<rparr>))"
    by (simp add: GetBlockInfo_def ValidatorSet_def Commit_def resolveHeight_def rpc_def demo_defs)
  from GetBlockInfo_validator_set_at_commit_height [OF h] h r show ?thesis by simp
qed

subsection \<open>Reassembly of parts\<close>

text \<open>
  C2. On two parts that declare the same index the accumulator refuses the second with
  \<^verbatim>\<open>(false, nil)\<close>; \<^verbatim>\<open>partsToBlock\<close> then leaves through \<^verbatim>\<open>if !ok { return nil, err }\<close>
  with \<^verbatim>\<open>err\<close> known to be nil: it returns a nil block together with a nil error, for
  every library \<open>L\<close>.
\<close>

theorem partsToBlock_collision_nil_nil:
  "partsToBlock L [Some \<lparr>Index = 0, Bytes = [120]\<rparr>, Some \<lparr>Index = 0, Bytes = [121]\<rparr>] =
     Returns (None, None)"
  by (simp add: partsToBlock_def partsToBytes_def NewPartSetFromHeader_def AddPartWithoutProof_def)

text \<open>The same two parts on a by-height stream: \<^verbatim>\<open>GetBlock\<close> returns \<^verbatim>\<open>(nil, nil)\<close>, and
  \<^verbatim>\<open>GetSignedBlock\<close> dereferences the nil block.\<close>

lemma GetBlock_collision_nil_nil:
  "fst (GetBlock
     (demo_client []
        [Inr (first_resp \<lparr>Index = 0, Bytes = [120]\<rparr> False),
         Inr (next_resp \<lparr>Index = 0, Bytes = [121]\<rparr> True)] [] [])
     demo_lib None (NewBlockFetcher 100)) = Returns (None, None)
   \<and> fst (GetSignedBlock
     (demo_client []
        [Inr (first_resp \<lparr>Index = 0, Bytes = [120]\<rparr> False),
         Inr (next_resp \<lparr>Index = 0, Bytes = [121]\<rparr> True)] [] [])
     demo_lib None (NewBlockFetcher 100)) = Panics"
  by (simp add: GetBlock_def GetSignedBlock_def receiveBlockByHeight_def resolveHeight_def rpc_def
      partsToBlock_def partsToBytes_def NewPartSetFromHeader_def AddPartWithoutProof_def demo_defs)

subsection \<open>Block by hash\<close>

text \<open>
  C3, as amended. For a nil hash \<^verbatim>\<open>GetBlockByHash\<close> fails at once with the nil-hash error
  and the state is as before: no remote call. For every hash that is not nil, the empty
  one included, it opens the streaming fetch by that hash (one call, nothing else) and
  returns what the reassembly of the stream gives, or the error of the open.
\<close>

theorem GetBlockByHash_nil_guard:
  "GetBlockByHash c L None s = (Returns (None, Some ErrNilHash), s)
   \<and> trace (snd (GetBlockByHash c L (Some h) s)) = trace s @ [Call (BlockByHashRequest h)]
   \<and> world (snd (GetBlockByHash c L (Some h) s)) = snd (client_BlockByHash c h (world s))
   \<and> fst (GetBlockByHash c L (Some h) s) =
       (case fst (client_BlockByHash c h (world s)) of
          Inl err \<Rightarrow> Returns (None, Some err)
        | Inr streamer \<Rightarrow>
            (case receiveBlockByHash L streamer of
               Returns (block, Some err) \<Rightarrow> Returns (None, Some err)
             | r \<Rightarrow> r))"
  by (simp add: GetBlockByHash_def rpc_def split: prod.splits sum.splits option.splits outcome.splits)

text \<open>
  C3 as stated fails on the empty hash that is not nil: the fetch by hash is opened and a
  block comes back.
\<close>

theorem GetBlockByHash_empty_hash_counterexample:
  "GetBlockByHash
     (demo_client [] [] [Inr \<lparr>hash_BlockPart = Some \<lparr>Index = 0, Bytes = [120]\<rparr>, hash_IsLast = True\<rparr>] [])
     demo_lib (Some []) (NewBlockFetcher 100) =
   (Returns (Some \<lparr>Header = [120], Data = []\<rparr>, None),
    \<lparr>world = 100, trace = [Call (BlockByHashRequest [])], doneCh = None, cancel = None, fresh = 0\<rparr>)"
  by (simp add: GetBlockByHash_def receiveBlockByHash_def partsToBlock_def partsToBytes_def
      decodeBlock_def NewPartSetFromHeader_def AddPartWithoutProof_def GetReader_def IsComplete_def
      rpc_def demo_defs)

subsection \<open>The receive loop\<close>

text \<open>The fetch of a signed block adds remote calls to the trace and nothing else.\<close>

lemma resolveHeight_trace:
  "\<exists>rs. trace (snd (resolveHeight c height s)) = trace s @ map Call rs"
proof (cases height)
  case None
  have "trace (snd (resolveHeight c None s)) = trace s @ map Call [StatusRequest]"
    by (simp add: resolveHeight_def rpc_def split: prod.splits sum.splits option.splits)
  with None show ?thesis by blast
next
  case (Some h)
  have "trace (snd (resolveHeight c (Some h) s)) = trace s @ map Call []"
    by (simp add: resolveHeight_def)
  with Some show ?thesis by blast
qed

lemma GetSignedBlock_trace:
  "\<exists>rs. trace (snd (GetSignedBlock c L height s)) = trace s @ map Call rs"
proof -
  obtain r s1 where rh: "resolveHeight c height s = (r, s1)" by (cases "resolveHeight c height s")
  obtain rs where t1: "trace s1 = trace s @ map Call rs"
    using resolveHeight_trace [of c height s] rh by auto
  show ?thesis
  proof (cases "\<exists>h. r = Returns (Inr h)")
    case False
    then have "snd (GetSignedBlock c L height s) = s1"
      using rh by (auto simp: GetSignedBlock_def split: outcome.splits sum.splits)
    with t1 show ?thesis by auto
  next
    case True
    then obtain h where h: "r = Returns (Inr h)" by blast
    have "trace (snd (GetSignedBlock c L height s)) = trace s @ map Call (rs @ [BlockByHeightRequest h])"
      using rh h t1
      by (auto simp: GetSignedBlock_def rpc_def split: prod.splits sum.splits option.splits outcome.splits)
    then show ?thesis by blast
  qed
qed

lemma receiveLoop_closes:
  "fst (receiveLoop c L dch out ticks sub s) \<noteq> Blocks \<Longrightarrow>
   \<exists>acts. trace (snd (receiveLoop c L dch out ticks sub s)) = trace s @ acts @ [Close out, Close dch]
        \<and> (\<forall>ch. Close ch \<notin> set acts)"
proof (induction ticks arbitrary: sub s)
  case Nil
  then show ?case by simp
next
  case (Cons t ticks)
  show ?case
  proof (cases "ctx_done_at_select t")
    case True
    then have "trace (snd (receiveLoop c L dch out (t # ticks) sub s)) = trace s @ [] @ [Close out, Close dch]"
      by (simp add: runDeferred_def)
    then show ?thesis by (metis empty_iff list.set(1))
  next
    case False
    note nd = False
    show ?thesis
    proof (cases sub)
      case Nil
      with nd Cons.prems show ?thesis by simp
    next
      case (Cons x sub')
      note sub = Cons
      show ?thesis
      proof (cases x)
        case (Inl err)
        have "trace (snd (receiveLoop c L dch out (t # ticks) sub s)) =
              trace s @ (if ctx_err_at_recv t then [] else [Log ''fetcher: error receiving new height'']) @ [Close out, Close dch]"
          using nd sub Inl by (simp add: runDeferred_def logError_def)
        moreover have "\<forall>ch. Close ch \<notin> set (if ctx_err_at_recv t then [] else [Log ''fetcher: error receiving new height''])"
          by simp
        ultimately show ?thesis by blast
      next
        case (Inr resp)
        obtain r s1 where g: "GetSignedBlock c L (Some (ev_Height resp)) s = (r, s1)"
          by (cases "GetSignedBlock c L (Some (ev_Height resp)) s")
        obtain rs where t1: "trace s1 = trace s @ map Call rs"
          using GetSignedBlock_trace [of c L "Some (ev_Height resp)" s] g by auto
        have nc: "\<forall>ch. Close ch \<notin> set (map Call rs)" by auto
        show ?thesis
        proof (cases r)
          case Blocks
          with nd sub Inr g Cons.prems show ?thesis by simp
        next
          case Panics
          then have "trace (snd (receiveLoop c L dch out (t # ticks) sub s)) =
              trace s @ map Call rs @ [Close out, Close dch]"
            using nd sub Inr g t1 by (simp add: runDeferred_def)
          with nc show ?thesis by blast
        next
          case (Returns res)
          show ?thesis
          proof (cases res)
            case (Inl err)
            then have "trace (snd (receiveLoop c L dch out (t # ticks) sub s)) =
              trace s @ (map Call rs @ [Log ''fetcher: error receiving signed block'']) @ [Close out, Close dch]"
              using nd sub Inr g t1 Returns by (simp add: runDeferred_def logError_def)
            moreover have "\<forall>ch. Close ch \<notin> set (map Call rs @ [Log ''fetcher: error receiving signed block''])"
              by auto
            ultimately show ?thesis by blast
          next
            case (Inr signedBlock)
            note sb = Inr
            show ?thesis
            proof (cases "push_result t")
              case Delivered
              let ?s2 = "s1\<lparr>trace := trace s1 @ [Send out (toEvent signedBlock)]\<rparr>"
              have eq: "receiveLoop c L dch out (t # ticks) sub s = receiveLoop c L dch out ticks sub' ?s2"
                using nd sub \<open>x = Inr resp\<close> g Returns sb Delivered by simp
              with Cons.prems have "fst (receiveLoop c L dch out ticks sub' ?s2) \<noteq> Blocks" by simp
              from Cons.IH [OF this] obtain acts where
                a: "trace (snd (receiveLoop c L dch out ticks sub' ?s2)) = trace ?s2 @ acts @ [Close out, Close dch]"
                and b: "\<forall>ch. Close ch \<notin> set acts" by blast
              have "trace (snd (receiveLoop c L dch out (t # ticks) sub s)) =
                  trace s @ (map Call rs @ Send out (toEvent signedBlock) # acts) @ [Close out, Close dch]"
                using eq a t1 by simp
              moreover have "\<forall>ch. Close ch \<notin> set (map Call rs @ Send out (toEvent signedBlock) # acts)"
                using b by auto
              ultimately show ?thesis by blast
            next
              case CancelObserved
              then have "trace (snd (receiveLoop c L dch out (t # ticks) sub s)) =
                 trace s @ map Call rs @ [Close out, Close dch]"
                using nd sub \<open>x = Inr resp\<close> g Returns sb t1 by (simp add: runDeferred_def)
              with nc show ?thesis by blast
            next
              case Stalled
              with nd sub \<open>x = Inr resp\<close> g Returns sb Cons.prems show ?thesis by simp
            qed
          qed
        qed
      qed
    qed
  qed
qed


lemma receiveLoop_frame:
  "doneCh (snd (receiveLoop c L dch out ticks sub s)) = doneCh s
   \<and> cancel (snd (receiveLoop c L dch out ticks sub s)) = cancel s"
proof (induction ticks arbitrary: sub s)
  case Nil
  show ?case by simp
next
  case (Cons t ticks)
  show ?case
  proof (cases "ctx_done_at_select t")
    case True
    then show ?thesis by (simp add: runDeferred_def)
  next
    case False
    note nd = False
    show ?thesis
    proof (cases sub)
      case Nil
      with nd show ?thesis by simp
    next
      case (Cons x sub')
      note sub = Cons
      show ?thesis
      proof (cases x)
        case (Inl err)
        with nd sub show ?thesis by (simp add: runDeferred_def logError_def)
      next
        case (Inr resp)
        obtain r s1 where g: "GetSignedBlock c L (Some (ev_Height resp)) s = (r, s1)"
          by (cases "GetSignedBlock c L (Some (ev_Height resp)) s")
        have f1: "doneCh s1 = doneCh s" "cancel s1 = cancel s"
          using GetSignedBlock_frame [of c L "Some (ev_Height resp)" s] g by simp_all
        show ?thesis
          using nd sub Inr g f1
            Cons.IH [of sub' "s1\<lparr>trace := trace s1 @ [Send out (toEvent sb)]\<rparr>" for sb]
          by (auto simp: runDeferred_def logError_def split: outcome.splits sum.splits push.splits)
      qed
    qed
  qed
qed

lemma count_list_absent: "x \<notin> set xs \<Longrightarrow> count_list xs x = 0"
  by (induction xs) auto

lemma count_list_app: "count_list (xs @ ys) x = count_list xs x + count_list ys x"
  by (induction xs) auto

text \<open>The goroutine that a subscription starts: both of its channels are closed exactly
  once when it ends, and the channel that \<^verbatim>\<open>Stop\<close> waits on is then closed.\<close>

lemma goroutine_closes_once:
  assumes sub: "SubscribeNewBlockEvent c s = (Inr g, s')"
      and ex: "fst (runGoroutine c L g ticks s') \<noteq> Blocks"
  shows "\<exists>acts. trace (snd (runGoroutine c L g ticks s')) = trace s' @ acts
            \<and> count_list acts (Close (g_signedBlockCh g)) = 1
            \<and> count_list acts (Close (g_doneCh g)) = 1"
    and "doneCh_closed (snd (runGoroutine c L g ticks s'))"
proof -
  from sub have g: "g_doneCh g = fresh s + 1" "g_signedBlockCh g = fresh s + 2" "doneCh s' = Some (fresh s + 1)"
    by (auto simp: SubscribeNewBlockEvent_def rpc_def Let_def split: prod.splits sum.splits)
  from ex obtain acts where
    a: "trace (snd (runGoroutine c L g ticks s')) = trace s' @ acts @ [Close (g_signedBlockCh g), Close (g_doneCh g)]"
    and b: "\<forall>ch. Close ch \<notin> set acts"
    using receiveLoop_closes [of c L "g_doneCh g" "g_signedBlockCh g" ticks "g_subscription g" s']
    by (auto simp: runGoroutine_def)
  have z: "count_list acts (Close (g_signedBlockCh g)) = 0" "count_list acts (Close (g_doneCh g)) = 0"
    using b by (simp_all add: count_list_absent)
  let ?acts = "acts @ [Close (g_signedBlockCh g), Close (g_doneCh g)]"
  have "trace (snd (runGoroutine c L g ticks s')) = trace s' @ ?acts" using a by simp
  moreover have "count_list ?acts (Close (g_signedBlockCh g)) = 1"
    using z g by (simp add: count_list_app)
  moreover have "count_list ?acts (Close (g_doneCh g)) = 1"
    using z g by (simp add: count_list_app)
  ultimately show "\<exists>acts. trace (snd (runGoroutine c L g ticks s')) = trace s' @ acts
            \<and> count_list acts (Close (g_signedBlockCh g)) = 1
            \<and> count_list acts (Close (g_doneCh g)) = 1" by blast
  have "doneCh (snd (runGoroutine c L g ticks s')) = Some (g_doneCh g)"
    using receiveLoop_frame [of c L "g_doneCh g" "g_signedBlockCh g" ticks "g_subscription g" s'] g
    by (simp add: runGoroutine_def)
  then show "doneCh_closed (snd (runGoroutine c L g ticks s'))"
    using a by (simp add: doneCh_closed_def)
qed


text \<open>
  C4. Every way out of the receive loop (the context found done, a failed \<^verbatim>\<open>Recv\<close>, a
  failed fetch, the context done at the push, a panic of the fetch) ends with the close of
  the output channel followed by the close of \<^verbatim>\<open>doneCh\<close>, and the loop closes no channel
  before that. A context found done, a failed \<^verbatim>\<open>Recv\<close> and a failed fetch end the loop in
  that very turn, whatever the stream of heights still holds and however many turns the
  surroundings would allow: after the failure the loop only logs and closes, it issues no
  further remote call and sends no event. A turn whose event the consumer takes sends
  that event and goes on with the next turn on the rest of the stream, the entry that
  comes next included whatever it is, so that the same holds of a failure in any later
  turn. For the goroutine that \<^verbatim>\<open>SubscribeNewBlockEvent\<close> starts the two channels are
  distinct, so that among the actions of a run that ends each is closed exactly once, and
  the \<^verbatim>\<open>doneCh\<close> of the fetcher is then closed.
\<close>

theorem receiveLoop_exit_paths:
  "(fst (receiveLoop c L dch out ticks sub s) \<noteq> Blocks \<longrightarrow>
      (\<exists>acts. trace (snd (receiveLoop c L dch out ticks sub s)) = trace s @ acts @ [Close out, Close dch]
            \<and> (\<forall>ch. Close ch \<notin> set acts)))
   \<and> (ctx_done_at_select t \<longrightarrow>
        fst (receiveLoop c L dch out (t # ticks) sub s) = Returns ()
        \<and> trace (snd (receiveLoop c L dch out (t # ticks) sub s)) = trace s @ [Close out, Close dch])
   \<and> (\<not> ctx_done_at_select t \<longrightarrow>
        fst (receiveLoop c L dch out (t # ticks) (Inl err # rest) s) = Returns ()
        \<and> trace (snd (receiveLoop c L dch out (t # ticks) (Inl err # rest) s)) =
            trace s @ (if ctx_err_at_recv t then [] else [Log ''fetcher: error receiving new height''])
                    @ [Close out, Close dch])
   \<and> (\<not> ctx_done_at_select t \<and> GetSignedBlock c L (Some (ev_Height resp)) s = (Returns (Inl err), s1) \<longrightarrow>
        fst (receiveLoop c L dch out (t # ticks) (Inr resp # rest) s) = Returns ()
        \<and> trace (snd (receiveLoop c L dch out (t # ticks) (Inr resp # rest) s)) =
            trace s1 @ [Log ''fetcher: error receiving signed block'', Close out, Close dch]
        \<and> world (snd (receiveLoop c L dch out (t # ticks) (Inr resp # rest) s)) = world s1)
   \<and> (SubscribeNewBlockEvent c s0 = (Inr g, s') \<and> fst (runGoroutine c L g ticks s') \<noteq> Blocks \<longrightarrow>
        g_signedBlockCh g \<noteq> g_doneCh g
        \<and> (\<exists>acts. trace (snd (runGoroutine c L g ticks s')) = trace s' @ acts
               \<and> count_list acts (Close (g_signedBlockCh g)) = 1
               \<and> count_list acts (Close (g_doneCh g)) = 1)
        \<and> doneCh_closed (snd (runGoroutine c L g ticks s')))
   \<and> (\<not> ctx_done_at_select t
        \<and> GetSignedBlock c L (Some (ev_Height resp)) s = (Returns (Inr signedBlock), s1)
        \<and> push_result t = Delivered \<longrightarrow>
        receiveLoop c L dch out (t # ticks) (Inr resp # rest) s =
          receiveLoop c L dch out ticks rest
            (s1\<lparr>trace := trace s1 @ [Send out (toEvent signedBlock)]\<rparr>))
   \<and> (\<not> ctx_done_at_select t
        \<and> GetSignedBlock c L (Some (ev_Height resp)) s = (Returns (Inr signedBlock), s1)
        \<and> push_result t = CancelObserved \<longrightarrow>
        fst (receiveLoop c L dch out (t # ticks) (Inr resp # rest) s) = Returns ()
        \<and> trace (snd (receiveLoop c L dch out (t # ticks) (Inr resp # rest) s)) =
            trace s1 @ [Close out, Close dch])"
proof (intro conjI impI)
  assume "fst (receiveLoop c L dch out ticks sub s) \<noteq> Blocks"
  then show "\<exists>acts. trace (snd (receiveLoop c L dch out ticks sub s)) = trace s @ acts @ [Close out, Close dch]
            \<and> (\<forall>ch. Close ch \<notin> set acts)"
    by (rule receiveLoop_closes)
next
  assume a: "SubscribeNewBlockEvent c s0 = (Inr g, s') \<and> fst (runGoroutine c L g ticks s') \<noteq> Blocks"
  then have g: "g_doneCh g = fresh s0 + 1 \<and> g_signedBlockCh g = fresh s0 + 2"
    by (auto simp: SubscribeNewBlockEvent_def rpc_def Let_def split: prod.splits sum.splits)
  from g show "g_signedBlockCh g \<noteq> g_doneCh g" by simp
  from a show "\<exists>acts. trace (snd (runGoroutine c L g ticks s')) = trace s' @ acts
               \<and> count_list acts (Close (g_signedBlockCh g)) = 1
               \<and> count_list acts (Close (g_doneCh g)) = 1"
    using goroutine_closes_once(1) by blast
  from a show "doneCh_closed (snd (runGoroutine c L g ticks s'))"
    using goroutine_closes_once(2) by blast
qed (simp_all add: runDeferred_def logError_def)

text \<open>
  A stream of two heights. On a node whose block stream breaks at once the fetch for height
  100 fails: the loop logs, closes both channels and never asks for height 101. A failed
  \<^verbatim>\<open>Recv\<close> and a cancelled context end it likewise. On the stream of height 100, a failed
  \<^verbatim>\<open>Recv\<close> and height 101, the event for 100 is delivered, the failed \<^verbatim>\<open>Recv\<close> of the
  second turn ends the loop, and height 101 is never fetched. The goroutine of a
  subscription that delivers one event and then finds its context done has closed each
  channel once.
\<close>

theorem receiveLoop_exit_paths_witness:
  "GetSignedBlock failing_node demo_lib (Some (ev_Height \<lparr>ev_Height = 100\<rparr>)) subscribed
     = (Returns (Inl (TransportError ''reset'')),
        subscribed\<lparr>trace := [Call SubscribeNewHeightsRequest, Call (BlockByHeightRequest 100)]\<rparr>)
   \<and> fst (receiveLoop failing_node demo_lib 1 2 [tick0, tick0] two_heights subscribed) = Returns ()
   \<and> trace (snd (receiveLoop failing_node demo_lib 1 2 [tick0, tick0] two_heights subscribed)) =
       [Call SubscribeNewHeightsRequest, Call (BlockByHeightRequest 100),
        Log ''fetcher: error receiving signed block'', Close 2, Close 1]
   \<and> fst (receiveLoop serving_node demo_lib 1 2 [tick0, tick0] (Inl EOF # two_heights) subscribed)
       = Returns ()
   \<and> trace (snd (receiveLoop serving_node demo_lib 1 2 [tick0, tick0] (Inl EOF # two_heights) subscribed)) =
       [Call SubscribeNewHeightsRequest, Log ''fetcher: error receiving new height'', Close 2, Close 1]
   \<and> fst (receiveLoop serving_node demo_lib 1 2 [tick_cancelled, tick0] two_heights subscribed)
       = Returns ()
   \<and> trace (snd (receiveLoop serving_node demo_lib 1 2 [tick_cancelled, tick0] two_heights subscribed)) =
       [Call SubscribeNewHeightsRequest, Close 2, Close 1]
   \<and> SubscribeNewBlockEvent serving_node (NewBlockFetcher 100) = (Inr spawned, subscribed)
   \<and> fst (runGoroutine serving_node demo_lib spawned [tick0, tick_cancelled] subscribed) = Returns ()
   \<and> (\<exists>acts. trace (snd (runGoroutine serving_node demo_lib spawned [tick0, tick_cancelled] subscribed))
                 = trace subscribed @ acts
             \<and> count_list acts (Close (g_signedBlockCh spawned)) = 1
             \<and> count_list acts (Close (g_doneCh spawned)) = 1)
   \<and> doneCh_closed (snd (runGoroutine serving_node demo_lib spawned [tick0, tick_cancelled] subscribed))
   \<and> GetSignedBlock serving_node demo_lib (Some (ev_Height \<lparr>ev_Height = 100\<rparr>)) subscribed
       = (Returns (Inr signed100),
          subscribed\<lparr>trace := [Call SubscribeNewHeightsRequest, Call (BlockByHeightRequest 100)]\<rparr>)
   \<and> push_result tick0 = Delivered
   \<and> fst (receiveLoop serving_node demo_lib 1 2 [tick0, tick0, tick0] interrupted_heights subscribed)
       = Returns ()
   \<and> trace (snd (receiveLoop serving_node demo_lib 1 2 [tick0, tick0, tick0] interrupted_heights subscribed)) =
       [Call SubscribeNewHeightsRequest, Call (BlockByHeightRequest 100), Send 2 (toEvent signed100),
        Log ''fetcher: error receiving new height'', Close 2, Close 1]"
proof -
  let ?s1 = "subscribed\<lparr>trace := [Call SubscribeNewHeightsRequest, Call (BlockByHeightRequest 100)]\<rparr>"
  let ?s2 = "?s1\<lparr>trace := trace ?s1 @ [Send 2 (toEvent signed100)]\<rparr>"
  have nd: "\<not> ctx_done_at_select tick0" by (simp add: tick0_def)
  have ne: "\<not> ctx_err_at_recv tick0" by (simp add: tick0_def)
  have pd: "push_result tick0 = Delivered" by (simp add: tick0_def)
  have cd: "ctx_done_at_select tick_cancelled" by (simp add: tick_cancelled_def)
  have th: "two_heights = Inr \<lparr>ev_Height = 100\<rparr> # [Inr \<lparr>ev_Height = 101\<rparr>]"
    by (simp add: two_heights_def)
  have ih: "interrupted_heights = Inr \<lparr>ev_Height = 100\<rparr> # Inl EOF # [Inr \<lparr>ev_Height = 101\<rparr>]"
    by (simp add: interrupted_heights_def)
  have ts: "trace subscribed = [Call SubscribeNewHeightsRequest]" by (simp add: subscribed_def)
  have g: "GetSignedBlock failing_node demo_lib (Some (ev_Height \<lparr>ev_Height = 100\<rparr>)) subscribed
            = (Returns (Inl (TransportError ''reset'')), ?s1)"
    by (simp add: GetSignedBlock_def resolveHeight_def rpc_def receiveBlockByHeight_def
        failed_by_height_def failing_node_def demo_client_def subscribed_def)
  have fetch: "fst (receiveLoop failing_node demo_lib 1 2 [tick0, tick0] two_heights subscribed) = Returns ()
     \<and> trace (snd (receiveLoop failing_node demo_lib 1 2 [tick0, tick0] two_heights subscribed)) =
       [Call SubscribeNewHeightsRequest, Call (BlockByHeightRequest 100),
        Log ''fetcher: error receiving signed block'', Close 2, Close 1]"
    using receiveLoop_exit_paths [where c = failing_node and L = demo_lib and dch = 1 and out = 2
      and ticks = "[tick0]" and s = subscribed and t = tick0 and resp = "\<lparr>ev_Height = 100\<rparr>"
      and err = "TransportError ''reset''" and ?s1.0 = ?s1
      and rest = "[Inr \<lparr>ev_Height = 101\<rparr>]",
      THEN conjunct2, THEN conjunct2, THEN conjunct2, THEN conjunct1] nd g
    by (simp add: th)
  have recv: "fst (receiveLoop serving_node demo_lib 1 2 [tick0, tick0] (Inl EOF # two_heights) subscribed)
       = Returns ()
     \<and> trace (snd (receiveLoop serving_node demo_lib 1 2 [tick0, tick0] (Inl EOF # two_heights) subscribed)) =
       [Call SubscribeNewHeightsRequest, Log ''fetcher: error receiving new height'', Close 2, Close 1]"
    using receiveLoop_exit_paths [where c = serving_node and L = demo_lib and dch = 1 and out = 2
      and ticks = "[tick0]" and s = subscribed and t = tick0 and err = EOF and rest = two_heights,
      THEN conjunct2, THEN conjunct2, THEN conjunct1] nd ne
    by (simp add: ts)
  have canc: "fst (receiveLoop serving_node demo_lib 1 2 [tick_cancelled, tick0] two_heights subscribed)
       = Returns ()
     \<and> trace (snd (receiveLoop serving_node demo_lib 1 2 [tick_cancelled, tick0] two_heights subscribed)) =
       [Call SubscribeNewHeightsRequest, Close 2, Close 1]"
    using receiveLoop_exit_paths [where c = serving_node and L = demo_lib and dch = 1 and out = 2
      and ticks = "[tick0]" and s = subscribed and t = tick_cancelled and sub = two_heights,
      THEN conjunct2, THEN conjunct1] cd
    by (simp add: ts)
  have sub: "SubscribeNewBlockEvent serving_node (NewBlockFetcher 100) = (Inr spawned, subscribed)"
    by (simp add: SubscribeNewBlockEvent_def rpc_def Let_def serving_node_def demo_client_def
        NewBlockFetcher_def spawned_def subscribed_def)
  have run: "fst (runGoroutine serving_node demo_lib spawned [tick0, tick_cancelled] subscribed) = Returns ()"
    by code_simp
  then have ex: "fst (runGoroutine serving_node demo_lib spawned [tick0, tick_cancelled] subscribed) \<noteq> Blocks"
    by simp
  note once = receiveLoop_exit_paths [where c = serving_node and L = demo_lib and g = spawned
      and ?s0.0 = "NewBlockFetcher 100" and s' = subscribed and ticks = "[tick0, tick_cancelled]",
      THEN conjunct2, THEN conjunct2, THEN conjunct2, THEN conjunct2, THEN conjunct1,
      THEN mp, OF conjI, OF sub ex]
  have gs: "GetSignedBlock serving_node demo_lib (Some (ev_Height \<lparr>ev_Height = 100\<rparr>)) subscribed
       = (Returns (Inr signed100), ?s1)"
    by code_simp
  have step: "receiveLoop serving_node demo_lib 1 2 (tick0 # [tick0, tick0])
                (Inr \<lparr>ev_Height = 100\<rparr> # Inl EOF # [Inr \<lparr>ev_Height = 101\<rparr>]) subscribed =
              receiveLoop serving_node demo_lib 1 2 [tick0, tick0]
                (Inl EOF # [Inr \<lparr>ev_Height = 101\<rparr>]) ?s2"
    using receiveLoop_exit_paths [where c = serving_node and L = demo_lib and dch = 1 and out = 2
      and ticks = "[tick0, tick0]" and s = subscribed and t = tick0 and resp = "\<lparr>ev_Height = 100\<rparr>"
      and signedBlock = signed100 and ?s1.0 = ?s1
      and rest = "Inl EOF # [Inr \<lparr>ev_Height = 101\<rparr>]",
      THEN conjunct2, THEN conjunct2, THEN conjunct2, THEN conjunct2, THEN conjunct2, THEN conjunct1]
      nd gs pd
    by blast
  have after: "fst (receiveLoop serving_node demo_lib 1 2 (tick0 # [tick0])
                 (Inl EOF # [Inr \<lparr>ev_Height = 101\<rparr>]) ?s2) = Returns ()
     \<and> trace (snd (receiveLoop serving_node demo_lib 1 2 (tick0 # [tick0])
                 (Inl EOF # [Inr \<lparr>ev_Height = 101\<rparr>]) ?s2)) =
         trace ?s2 @ (if ctx_err_at_recv tick0 then [] else [Log ''fetcher: error receiving new height''])
           @ [Close 2, Close 1]"
    using receiveLoop_exit_paths [where c = serving_node and L = demo_lib and dch = 1 and out = 2
      and ticks = "[tick0]" and s = ?s2 and t = tick0 and err = EOF
      and rest = "[Inr \<lparr>ev_Height = 101\<rparr>]",
      THEN conjunct2, THEN conjunct2, THEN conjunct1] nd
    by blast
  have late: "fst (receiveLoop serving_node demo_lib 1 2 [tick0, tick0, tick0] interrupted_heights subscribed)
       = Returns ()
     \<and> trace (snd (receiveLoop serving_node demo_lib 1 2 [tick0, tick0, tick0] interrupted_heights subscribed)) =
       [Call SubscribeNewHeightsRequest, Call (BlockByHeightRequest 100), Send 2 (toEvent signed100),
        Log ''fetcher: error receiving new height'', Close 2, Close 1]"
    using step after ne by (simp add: ih)
  from g fetch recv canc sub run once gs pd late show ?thesis by blast
qed

subsection \<open>Stop\<close>

text \<open>
  C5. With a cancel function stored, \<^verbatim>\<open>Stop\<close> first cancels the subscription context and
  then waits: the cancellation stands in the trace before whatever the receive loop does
  during the wait, and \<^verbatim>\<open>Stop\<close> adds nothing after it. It returns nil only when
  \<^verbatim>\<open>doneCh\<close> has been closed, and it does so whenever \<^verbatim>\<open>doneCh\<close> has been closed and the
  caller's context has not ended; when the caller's context ends with \<^verbatim>\<open>doneCh\<close> still
  open it returns that context's error, wrapped; every error it returns is of that form.
  With neither it keeps waiting.
\<close>

theorem Stop_contract:
  assumes "cancel s = Some ctx"
  shows "trace (snd (Stop env s)) = trace s @ Cancel ctx # loop_actions env
   \<and> cancel (snd (Stop env s)) = cancel s \<and> doneCh (snd (Stop env s)) = doneCh s
   \<and> (fst (Stop env s) = Returns None \<longrightarrow> doneCh_closed (snd (Stop env s)))
   \<and> (doneCh_closed (snd (Stop env s)) \<and> caller_done env = None \<longrightarrow> fst (Stop env s) = Returns None)
   \<and> (\<forall>err. \<not> doneCh_closed (snd (Stop env s)) \<and> caller_done env = Some err \<longrightarrow>
          fst (Stop env s) = Returns (Some (ErrUnsubscribe err)))
   \<and> (\<forall>e. fst (Stop env s) = Returns (Some e) \<longrightarrow>
          (\<exists>err. caller_done env = Some err \<and> e = ErrUnsubscribe err))
   \<and> (fst (Stop env s) = Blocks \<longleftrightarrow> \<not> doneCh_closed (snd (Stop env s)) \<and> caller_done env = None)
   \<and> fst (Stop env s) \<noteq> Panics"
  using assms
  by (auto simp: Stop_def Let_def doneCh_closed_def split: option.splits)

text \<open>
  After a subscription: the loop closes its channels during the wait and \<^verbatim>\<open>Stop\<close> returns
  nil; the loop does nothing, the deadline passes and \<^verbatim>\<open>Stop\<close> returns the wrapped
  deadline error, with the cancellation in the trace all the same.
\<close>

theorem Stop_contract_witness:
  "snd (SubscribeNewBlockEvent (demo_client [] [] [] []) (NewBlockFetcher 100)) = subscribed
   \<and> cancel subscribed = Some 0
   \<and> doneCh_closed (snd (Stop loop_exits subscribed))
   \<and> fst (Stop loop_exits subscribed) = Returns None
   \<and> trace (snd (Stop loop_exits subscribed)) =
        [Call SubscribeNewHeightsRequest, Cancel 0, Close 2, Close 1]
   \<and> \<not> doneCh_closed (snd (Stop deadline_first subscribed))
   \<and> fst (Stop deadline_first subscribed) = Returns (Some (ErrUnsubscribe DeadlineExceeded))
   \<and> trace (snd (Stop deadline_first subscribed)) = [Call SubscribeNewHeightsRequest, Cancel 0]"
proof -
  have s: "snd (SubscribeNewBlockEvent (demo_client [] [] [] []) (NewBlockFetcher 100)) = subscribed"
    by (simp add: SubscribeNewBlockEvent_def rpc_def Let_def demo_defs subscribed_def)
  have h: "cancel subscribed = Some 0" by (simp add: subscribed_def)
  have c1: "doneCh_closed (snd (Stop loop_exits subscribed))"
    by (simp add: Stop_def Let_def doneCh_closed_def subscribed_def loop_exits_def)
  have c2: "\<not> doneCh_closed (snd (Stop deadline_first subscribed))"
    by (simp add: Stop_def Let_def doneCh_closed_def subscribed_def deadline_first_def)
  have n1: "caller_done loop_exits = None" by (simp add: loop_exits_def)
  have n2: "caller_done deadline_first = Some DeadlineExceeded" by (simp add: deadline_first_def)
  have r1: "fst (Stop loop_exits subscribed) = Returns None"
    using Stop_contract [OF h, of loop_exits] c1 n1 by blast
  have t1: "trace (snd (Stop loop_exits subscribed)) =
        [Call SubscribeNewHeightsRequest, Cancel 0, Close 2, Close 1]"
    using Stop_contract [OF h, of loop_exits] by (simp add: subscribed_def loop_exits_def)
  have r2: "fst (Stop deadline_first subscribed) = Returns (Some (ErrUnsubscribe DeadlineExceeded))"
    using Stop_contract [OF h, of deadline_first] c2 n2 by blast
  have t2: "trace (snd (Stop deadline_first subscribed)) = [Call SubscribeNewHeightsRequest, Cancel 0]"
    using Stop_contract [OF h, of deadline_first] by (simp add: subscribed_def deadline_first_def)
  from s h c1 r1 t1 c2 r2 t2 show ?thesis by blast
qed

subsection \<open>The order of reassembly\<close>

lemma part_copy: "\<lparr>Index = Index (p :: pb_Part), Bytes = Bytes p\<rparr> = p"
  by simp

lemma those_map_Some: "those (map (\<lambda>x. Some (f x)) xs) = Some (map f xs)"
  by (induction xs) auto

lemma addParts_Cons_Returns:
  "addParts ps (Some p # parts) = Returns (Inr ps') \<Longrightarrow>
   idx p < unat (ps_total ps) \<and> ps_parts ps ! idx p = None
   \<and> addParts (ps\<lparr>ps_parts := (ps_parts ps)[idx p := Some (Bytes p)], ps_count := ps_count ps + 1\<rparr>) parts
       = Returns (Inr ps')"
  by (auto simp: AddPartWithoutProof_def word_less_nat_alt word_le_nat_alt split: if_splits)

text \<open>A list of parts either has no nil part or splits at its first nil part.\<close>

lemma parts_split:
  "(\<exists>xs. parts = map Some xs) \<or> (\<exists>pre rest. parts = map Some pre @ None # rest)"
proof (induction parts)
  case Nil
  have "[] = map Some []" by simp
  then have "\<exists>xs. [] = map Some xs" by (rule exI)
  then show ?case by (rule disjI1)
next
  case (Cons a parts)
  show ?case
  proof (cases a)
    case None
    have "a # parts = map Some [] @ None # parts" using None by simp
    then have "\<exists>rest. a # parts = map Some [] @ None # rest" by (rule exI)
    then have "\<exists>pre rest. a # parts = map Some pre @ None # rest" by (rule exI)
    then show ?thesis by (rule disjI2)
  next
    case (Some p)
    from Cons.IH show ?thesis
    proof
      assume "\<exists>xs. parts = map Some xs"
      then obtain xs where "parts = map Some xs" by (rule exE)
      then have "a # parts = map Some (p # xs)" using Some by simp
      then have "\<exists>xs. a # parts = map Some xs" by (rule exI)
      then show ?thesis by (rule disjI1)
    next
      assume "\<exists>pre rest. parts = map Some pre @ None # rest"
      then obtain pre rest where "parts = map Some pre @ None # rest" by (elim exE)
      then have "a # parts = map Some (p # pre) @ None # rest" using Some by simp
      then have "\<exists>rest. a # parts = map Some (p # pre) @ None # rest" by (rule exI)
      then have "\<exists>pre rest. a # parts = map Some pre @ None # rest" by (rule exI)
      then show ?thesis by (rule disjI2)
    qed
  qed
qed

lemma before_nil:
  "takeWhile (\<lambda>x. x \<noteq> None) (map Some xs @ None # rest) = map Some xs"
  by (induction xs) simp_all

text \<open>Without a nil part the loop returns; at a nil part it panics, unless it has left
  before.\<close>

lemma addParts_returns:
  "\<exists>r. addParts ps (map Some xs) = Returns r"
  by (induction xs arbitrary: ps) (auto split: prod.splits)

lemma addParts_at_nil:
  "addParts ps (map Some pre @ None # rest) =
     (case addParts ps (map Some pre) of Returns (Inr ps') \<Rightarrow> Panics | r \<Rightarrow> r)"
  by (induction pre arbitrary: ps) (auto split: prod.splits)

text \<open>
  What acceptance of all parts says: the indices are pairwise distinct and below the
  total, each slot named by a part was empty before and holds that part's payload after,
  and every other slot is as before.
\<close>

lemma addParts_accepted:
  "addParts ps (map Some xs) = Returns (Inr ps') \<Longrightarrow> length (ps_parts ps) = unat (ps_total ps) \<Longrightarrow>
   ps_total ps' = ps_total ps \<and> length (ps_parts ps') = length (ps_parts ps)
   \<and> ps_count ps' = ps_count ps + of_nat (length xs)
   \<and> distinct (map idx xs)
   \<and> (\<forall>p\<in>set xs. idx p < unat (ps_total ps) \<and> ps_parts ps ! idx p = None
                      \<and> ps_parts ps' ! idx p = Some (Bytes p))
   \<and> (\<forall>i. i \<notin> idx ` set xs \<longrightarrow> ps_parts ps' ! i = ps_parts ps ! i)"
proof (induction xs arbitrary: ps)
  case Nil
  then show ?case by simp
next
  case (Cons p xs)
  let ?ps1 = "ps\<lparr>ps_parts := (ps_parts ps)[idx p := Some (Bytes p)], ps_count := ps_count ps + 1\<rparr>"
  from Cons.prems(1) have "addParts ps (Some p # map Some xs) = Returns (Inr ps')" by simp
  from addParts_Cons_Returns [OF this]
  have p: "idx p < unat (ps_total ps)" "ps_parts ps ! idx p = None"
    and rest: "addParts ?ps1 (map Some xs) = Returns (Inr ps')" by auto
  have len1: "length (ps_parts ?ps1) = unat (ps_total ?ps1)" using Cons.prems(2) by simp
  note IH = Cons.IH [OF rest len1]
  have slot: "ps_parts ?ps1 ! idx p = Some (Bytes p)" using p Cons.prems(2) by simp
  have nocoll: "idx p \<notin> idx ` set xs"
  proof
    assume "idx p \<in> idx ` set xs"
    then obtain q where "q \<in> set xs" "idx q = idx p" by auto
    with IH have "ps_parts ?ps1 ! idx p = None" by metis
    with slot show False by simp
  qed
  have other: "\<And>q. q \<in> set xs \<Longrightarrow> ps_parts ps ! idx q = None"
  proof -
    fix q assume q: "q \<in> set xs"
    with nocoll have "idx q \<noteq> idx p" by (metis image_eqI)
    moreover from IH q have "ps_parts ?ps1 ! idx q = None" by blast
    ultimately show "ps_parts ps ! idx q = None" by simp
  qed
  have keep: "\<And>i. i \<notin> idx ` set (p # xs) \<Longrightarrow> ps_parts ps' ! i = ps_parts ps ! i"
  proof -
    fix i assume "i \<notin> idx ` set (p # xs)"
    then have "i \<noteq> idx p" "i \<notin> idx ` set xs" by auto
    with IH have "ps_parts ps' ! i = ps_parts ?ps1 ! i" by blast
    with \<open>i \<noteq> idx p\<close> show "ps_parts ps' ! i = ps_parts ps ! i" by simp
  qed
  have atp: "ps_parts ps' ! idx p = Some (Bytes p)"
    using IH nocoll slot by metis
  show ?case
  proof (intro conjI)
    show "ps_total ps' = ps_total ps" using IH by simp
    show "length (ps_parts ps') = length (ps_parts ps)" using IH by simp
    show "ps_count ps' = ps_count ps + of_nat (length (p # xs))" using IH by simp
    show "distinct (map idx (p # xs))" using IH nocoll by simp
    show "\<forall>q\<in>set (p # xs). idx q < unat (ps_total ps) \<and> ps_parts ps ! idx q = None
                      \<and> ps_parts ps' ! idx q = Some (Bytes q)"
      using IH p other atp by auto
    show "\<forall>i. i \<notin> idx ` set (p # xs) \<longrightarrow> ps_parts ps' ! i = ps_parts ps ! i"
      using keep by blast
  qed
qed

lemma addParts_succeeds:
  "length (ps_parts ps) = unat (ps_total ps) \<Longrightarrow> distinct (map idx xs) \<Longrightarrow>
   \<forall>p\<in>set xs. idx p < unat (ps_total ps) \<and> ps_parts ps ! idx p = None \<Longrightarrow>
   \<exists>ps'. addParts ps (map Some xs) = Returns (Inr ps')"
proof (induction xs arbitrary: ps)
  case Nil
  then show ?case by simp
next
  case (Cons p xs)
  let ?ps1 = "ps\<lparr>ps_parts := (ps_parts ps)[idx p := Some (Bytes p)], ps_count := ps_count ps + 1\<rparr>"
  have p: "idx p < unat (ps_total ps)" "ps_parts ps ! idx p = None" using Cons.prems(3) by auto
  have step: "AddPartWithoutProof ps p = ((True, None), ?ps1)"
    using p by (simp add: AddPartWithoutProof_def word_le_nat_alt)
  have "\<forall>q\<in>set xs. idx q < unat (ps_total ?ps1) \<and> ps_parts ?ps1 ! idx q = None"
  proof
    fix q assume q: "q \<in> set xs"
    then have "idx q \<in> set (map idx xs)" by simp
    moreover from Cons.prems(2) have "idx p \<notin> set (map idx xs)" by simp
    ultimately have "idx q \<noteq> idx p" by metis
    with q Cons.prems(3) show "idx q < unat (ps_total ?ps1) \<and> ps_parts ?ps1 ! idx q = None" by simp
  qed
  moreover have "length (ps_parts ?ps1) = unat (ps_total ?ps1)" using Cons.prems(1) by simp
  moreover have "distinct (map idx xs)" using Cons.prems(2) by simp
  ultimately obtain ps' where "addParts ?ps1 (map Some xs) = Returns (Inr ps')" using Cons.IH by blast
  with step show ?case by (simp add: part_copy)
qed

text \<open>The accumulator that \<^verbatim>\<open>partsToBlock\<close> makes for a list of \<open>n\<close> parts.\<close>

lemma new_slots:
  "length (ps_parts (NewPartSetFromHeader n)) = unat (ps_total (NewPartSetFromHeader n))
   \<and> (\<forall>i < unat n. ps_parts (NewPartSetFromHeader n) ! i = None)
   \<and> ps_total (NewPartSetFromHeader n) = n \<and> ps_count (NewPartSetFromHeader n) = 0"
  by (simp add: NewPartSetFromHeader_def)

text \<open>A prefix of non-nil parts is accepted exactly when its indices are pairwise distinct
  and below the total.\<close>

lemma addParts_new_iff:
  "(\<exists>ps'. addParts (NewPartSetFromHeader n) (map Some xs) = Returns (Inr ps')) \<longleftrightarrow>
     distinct (map idx xs) \<and> (\<forall>p\<in>set xs. idx p < unat n)"
proof
  assume "\<exists>ps'. addParts (NewPartSetFromHeader n) (map Some xs) = Returns (Inr ps')"
  then obtain ps' where ok: "addParts (NewPartSetFromHeader n) (map Some xs) = Returns (Inr ps')"
    by blast
  from addParts_accepted [OF ok] new_slots [of n]
  show "distinct (map idx xs) \<and> (\<forall>p\<in>set xs. idx p < unat n)" by simp
next
  assume a: "distinct (map idx xs) \<and> (\<forall>p\<in>set xs. idx p < unat n)"
  show "\<exists>ps'. addParts (NewPartSetFromHeader n) (map Some xs) = Returns (Inr ps')"
  proof (rule addParts_succeeds)
    show "length (ps_parts (NewPartSetFromHeader n)) = unat (ps_total (NewPartSetFromHeader n))"
      using new_slots [of n] by simp
    show "distinct (map idx xs)" using a by simp
    show "\<forall>p\<in>set xs. idx p < unat (ps_total (NewPartSetFromHeader n))
            \<and> ps_parts (NewPartSetFromHeader n) ! idx p = None"
      using a new_slots [of n] by simp
  qed
qed

text \<open>
  On an accumulator made for as many parts as there are, and there is at least one,
  acceptance of all parts fills every slot, so the reader is handed out, and it reads the
  payloads in the order of their indices.
\<close>

lemma addParts_new_reader:
  assumes ok: "addParts (NewPartSetFromHeader (of_nat (length xs))) (map Some xs) = Returns (Inr ps')"
      and ne: "xs \<noteq> []"
  shows "GetReader ps' = Some (concat (map Bytes (sort_key idx xs)))"
proof -
  let ?n = "length xs"
  let ?T = "of_nat ?n :: uint32"
  let ?ps = "NewPartSetFromHeader ?T"
  let ?ys = "sort_key idx xs"
  have len0: "length (ps_parts ?ps) = unat (ps_total ?ps)"
    by (simp add: NewPartSetFromHeader_def)
  note acc = addParts_accepted [OF ok len0]
  have tot: "ps_total ps' = ?T" and cnt: "ps_count ps' = ?T"
    and len: "length (ps_parts ps') = unat ?T"
    using acc by (simp_all add: NewPartSetFromHeader_def)
  have dist: "distinct (map idx xs)" using acc by blast
  have bound: "idx ` set xs \<subseteq> {0..<unat ?T}"
    using acc by (auto simp: NewPartSetFromHeader_def)
  have card: "card (idx ` set xs) = ?n"
    using dist distinct_card [of "map idx xs"] by simp
  have "?n \<le> unat ?T"
    using card card_mono [OF _ bound] by simp
  moreover have "unat ?T \<le> ?n" by (simp add: unat_of_nat)
  ultimately have T: "unat ?T = ?n" by simp
  have img: "idx ` set xs = {0..<?n}"
    using card_subset_eq [OF _ bound] card T by simp
  have sorted_idx: "map idx ?ys = [0..<?n]"
  proof (rule sorted_distinct_set_unique)
    show "sorted (map idx ?ys)" by simp
    show "distinct (map idx ?ys)" using dist by (simp add: distinct_map)
    show "sorted [0..<?n]" by simp
    show "distinct [0..<?n]" by simp
    show "set (map idx ?ys) = set [0..<?n]" using img by simp
  qed
  have slots: "ps_parts ps' = map (\<lambda>p. Some (Bytes p)) ?ys"
  proof (rule nth_equalityI)
    show "length (ps_parts ps') = length (map (\<lambda>p. Some (Bytes p)) ?ys)"
      using len T by simp
  next
    fix i assume "i < length (ps_parts ps')"
    then have i: "i < ?n" using len T by simp
    then have mem: "?ys ! i \<in> set xs"
      by (metis length_sort nth_mem set_sort)
    have "idx (?ys ! i) = map idx ?ys ! i" using i by simp
    also have "\<dots> = i" using sorted_idx i by simp
    finally have "idx (?ys ! i) = i" .
    with acc mem have "ps_parts ps' ! i = Some (Bytes (?ys ! i))" by metis
    then show "ps_parts ps' ! i = map (\<lambda>p. Some (Bytes p)) ?ys ! i" using i by simp
  qed
  have "?ys \<noteq> []" using ne by (metis length_sort length_0_conv)
  then obtain y ys' where "?ys = y # ys'" by (cases ?ys) auto
  then have "ps_parts ps' = Some (Bytes y) # map (\<lambda>p. Some (Bytes p)) ys'" using slots by simp
  then have "GetReader ps' = map_option concat (those (ps_parts ps'))"
    by (simp add: GetReader_def IsComplete_def tot cnt)
  then show ?thesis by (simp add: slots those_map_Some)
qed

lemma partsToBytes_accepts_iff:
  "partsToBytes (map Some xs) = Returns (Inr bz) \<longleftrightarrow>
     xs \<noteq> [] \<and> distinct (map idx xs) \<and> (\<forall>p\<in>set xs. idx p < length xs) \<and> length xs < 2 ^ 32
     \<and> bz = concat (map Bytes (sort_key idx xs))"
proof
  assume r: "partsToBytes (map Some xs) = Returns (Inr bz)"
  then obtain ps' where ok: "addParts (NewPartSetFromHeader (of_nat (length xs))) (map Some xs) = Returns (Inr ps')"
    and rd: "GetReader ps' = Some bz"
    by (auto simp: partsToBytes_def split: outcome.splits sum.splits option.splits)
  have ne: "xs \<noteq> []"
  proof
    assume "xs = []"
    with ok have "ps' = NewPartSetFromHeader 0" by simp
    then have "GetReader ps' = None" by (simp add: GetReader_def NewPartSetFromHeader_def)
    with rd show False by simp
  qed
  from ok have "\<exists>ps'. addParts (NewPartSetFromHeader (of_nat (length xs))) (map Some xs) = Returns (Inr ps')"
    by blast
  then have dist: "distinct (map idx xs)"
    and bound: "\<forall>p\<in>set xs. idx p < unat (of_nat (length xs) :: uint32)"
    using addParts_new_iff [of "of_nat (length xs)" xs] by simp_all
  have le: "unat (of_nat (length xs) :: uint32) \<le> length xs" by (simp add: unat_of_nat)
  have "idx ` set xs \<subseteq> {0..<unat (of_nat (length xs) :: uint32)}" using bound by auto
  from card_mono [OF _ this] have "length xs \<le> unat (of_nat (length xs) :: uint32)"
    using dist distinct_card [of "map idx xs"] by simp
  with le have eq: "unat (of_nat (length xs) :: uint32) = length xs" by simp
  have "unat (of_nat (length xs) :: uint32) < 2 ^ 32"
    using unsigned_less [of "of_nat (length xs) :: uint32"] by simp
  with eq have small: "length xs < 2 ^ 32" by simp
  have "bz = concat (map Bytes (sort_key idx xs))"
    using rd addParts_new_reader [OF ok ne] by simp
  with ne dist bound eq small
  show "xs \<noteq> [] \<and> distinct (map idx xs) \<and> (\<forall>p\<in>set xs. idx p < length xs) \<and> length xs < 2 ^ 32
     \<and> bz = concat (map Bytes (sort_key idx xs))" by simp
next
  assume a: "xs \<noteq> [] \<and> distinct (map idx xs) \<and> (\<forall>p\<in>set xs. idx p < length xs) \<and> length xs < 2 ^ 32
     \<and> bz = concat (map Bytes (sort_key idx xs))"
  then have eq: "unat (of_nat (length xs) :: uint32) = length xs"
    by (simp add: unat_of_nat)
  have "\<exists>ps'. addParts (NewPartSetFromHeader (of_nat (length xs))) (map Some xs) = Returns (Inr ps')"
    using a eq addParts_new_iff [of "of_nat (length xs)" xs] by simp
  then obtain ps' where ok: "addParts (NewPartSetFromHeader (of_nat (length xs))) (map Some xs) = Returns (Inr ps')"
    by blast
  have ne: "xs \<noteq> []" using a by simp
  show "partsToBytes (map Some xs) = Returns (Inr bz)"
    using ok addParts_new_reader [OF ok ne] a by (simp add: partsToBytes_def)
qed

lemma partsToBytes_in_sequence:
  assumes "xs \<noteq> []" "map idx xs = [0..<length xs]" "length xs < 2 ^ 32"
  shows "partsToBytes (map Some xs) = Returns (Inr (concat (map Bytes xs)))"
proof -
  have "sorted (map idx xs)" using assms(2) by simp
  then have s: "sort_key idx xs = xs" by (rule sort_key_id_if_sorted)
  have d: "distinct (map idx xs)" using assms(2) by simp
  have "\<forall>p\<in>set xs. idx p < length xs"
  proof
    fix p assume "p \<in> set xs"
    then have "idx p \<in> set (map idx xs)" by simp
    then show "idx p < length xs" unfolding assms(2) by simp
  qed
  with d assms(1,3) s show ?thesis
    using partsToBytes_accepts_iff [of xs "concat (map Bytes xs)"] by simp
qed

text \<open>With a nil part among them the parts are never accepted.\<close>

lemma partsToBytes_nil_part:
  "partsToBytes (map Some pre @ None # rest) =
     (if distinct (map idx pre)
         \<and> (\<forall>p\<in>set pre. idx p < unat (of_nat (length (map Some pre @ None # rest)) :: uint32))
      then Panics
      else (case addParts (NewPartSetFromHeader (of_nat (length (map Some pre @ None # rest))))
                   (map Some pre) of
              Returns (Inl err) \<Rightarrow> Returns (Inl err) | r \<Rightarrow> Panics))
   \<and> (\<forall>bz. partsToBytes (map Some pre @ None # rest) \<noteq> Returns (Inr bz))"
proof -
  let ?n = "of_nat (length (map Some pre @ None # rest)) :: uint32"
  obtain r where r: "addParts (NewPartSetFromHeader ?n) (map Some pre) = Returns r"
    using addParts_returns by blast
  show ?thesis
  proof (cases r)
    case (Inl err)
    then have "\<not> (\<exists>ps'. addParts (NewPartSetFromHeader ?n) (map Some pre) = Returns (Inr ps'))"
      using r by simp
    then have "\<not> (distinct (map idx pre) \<and> (\<forall>p\<in>set pre. idx p < unat ?n))"
      using addParts_new_iff [of ?n pre] by simp
    then show ?thesis
      using r Inl addParts_at_nil [of "NewPartSetFromHeader ?n" pre rest]
      by (simp add: partsToBytes_def)
  next
    case (Inr ps')
    then have "\<exists>ps'. addParts (NewPartSetFromHeader ?n) (map Some pre) = Returns (Inr ps')"
      using r by blast
    then have "distinct (map idx pre) \<and> (\<forall>p\<in>set pre. idx p < unat ?n)"
      using addParts_new_iff [of ?n pre] by simp
    then show ?thesis
      using r Inr addParts_at_nil [of "NewPartSetFromHeader ?n" pre rest]
      by (simp add: partsToBytes_def)
  qed
qed

text \<open>When \<^verbatim>\<open>partsToBlock\<close> panics in the accumulator: on no parts at all, and at a nil part
  that the loop reaches, all parts before it having been accepted.\<close>

lemma partsToBytes_panics_iff:
  "partsToBytes parts = Panics \<longleftrightarrow>
     parts = [] \<or>
     (\<exists>pre rest. parts = map Some pre @ None # rest \<and> distinct (map idx pre)
        \<and> (\<forall>p\<in>set pre. idx p < unat (of_nat (length parts) :: uint32)))"
proof -
  from parts_split [of parts] show ?thesis
  proof
    assume "\<exists>xs. parts = map Some xs"
    then obtain xs where xs: "parts = map Some xs" by blast
    have nonil: "\<And>pre rest. map Some xs \<noteq> map Some pre @ None # rest"
    proof
      fix pre rest assume "map Some xs = map Some pre @ None # rest"
      then have "None \<in> set (map Some xs)" by simp
      then show False by auto
    qed
    have "partsToBytes (map Some xs) = Panics \<longleftrightarrow> xs = []"
    proof (cases "xs = []")
      case True
      then show ?thesis
        by (simp add: partsToBytes_def GetReader_def IsComplete_def NewPartSetFromHeader_def)
    next
      case False
      obtain r where r: "addParts (NewPartSetFromHeader (of_nat (length xs))) (map Some xs) = Returns r"
        using addParts_returns by blast
      have "partsToBytes (map Some xs) \<noteq> Panics"
      proof (cases r)
        case (Inl err)
        with r show ?thesis by (simp add: partsToBytes_def)
      next
        case (Inr ps')
        with r addParts_new_reader [of xs ps'] False show ?thesis
          by (simp add: partsToBytes_def)
      qed
      with False show ?thesis by simp
    qed
    with xs nonil show ?thesis by auto
  next
    assume "\<exists>pre rest. parts = map Some pre @ None # rest"
    then obtain pre rest where pr: "parts = map Some pre @ None # rest" by blast
    have uniq: "\<And>pre' rest'. parts = map Some pre' @ None # rest' \<Longrightarrow> pre' = pre"
    proof -
      fix pre' rest' assume "parts = map Some pre' @ None # rest'"
      with pr have e: "map Some pre' @ None # rest' = map Some pre @ None # rest" by simp
      have "takeWhile (\<lambda>x. x \<noteq> None) (map Some pre' @ None # rest') = map Some pre'"
        by (rule before_nil)
      moreover have "takeWhile (\<lambda>x. x \<noteq> None) (map Some pre @ None # rest) = map Some pre"
        by (rule before_nil)
      ultimately have "map Some pre' = map Some pre" using e by simp
      then show "pre' = pre" by (simp add: inj_map_eq_map)
    qed
    have "partsToBytes parts = Panics \<longleftrightarrow>
        distinct (map idx pre) \<and> (\<forall>p\<in>set pre. idx p < unat (of_nat (length parts) :: uint32))"
    proof (cases "distinct (map idx pre) \<and> (\<forall>p\<in>set pre. idx p < unat (of_nat (length parts) :: uint32))")
      case True
      then show ?thesis using partsToBytes_nil_part [of pre rest] pr by simp
    next
      case False
      let ?n = "of_nat (length (map Some pre @ None # rest)) :: uint32"
      have "\<not> (\<exists>ps'. addParts (NewPartSetFromHeader ?n) (map Some pre) = Returns (Inr ps'))"
        using False pr addParts_new_iff [of ?n pre] by simp
      moreover obtain r where "addParts (NewPartSetFromHeader ?n) (map Some pre) = Returns r"
        using addParts_returns by blast
      ultimately obtain err where "addParts (NewPartSetFromHeader ?n) (map Some pre) = Returns (Inl err)"
        by (cases r) auto
      then have "partsToBytes parts = Returns (Inl err)"
        using addParts_at_nil [of "NewPartSetFromHeader ?n" pre rest] pr
        by (simp add: partsToBytes_def)
      with False show ?thesis by simp
    qed
    moreover have "parts \<noteq> []" using pr by simp
    ultimately show ?thesis using pr uniq by blast
  qed
qed

lemma partsToBytes_accepted_no_nil:
  "partsToBytes parts = Returns (Inr bz) \<Longrightarrow> None \<notin> set parts"
proof
  assume a: "partsToBytes parts = Returns (Inr bz)" and n: "None \<in> set parts"
  from parts_split [of parts] show False
  proof
    assume "\<exists>xs. parts = map Some xs"
    with n show False by auto
  next
    assume "\<exists>pre rest. parts = map Some pre @ None # rest"
    then obtain pre rest where "parts = map Some pre @ None # rest" by blast
    with a partsToBytes_nil_part [of pre rest, THEN conjunct2] show False by blast
  qed
qed

lemma partsToBytes_never_blocks: "partsToBytes parts \<noteq> Blocks"
proof -
  from parts_split [of parts] show ?thesis
  proof
    assume "\<exists>xs. parts = map Some xs"
    then obtain xs where xs: "parts = map Some xs" by blast
    obtain r where "addParts (NewPartSetFromHeader (of_nat (length xs))) (map Some xs) = Returns r"
      using addParts_returns by blast
    with xs show ?thesis by (simp add: partsToBytes_def split: sum.splits option.splits)
  next
    assume "\<exists>pre rest. parts = map Some pre @ None # rest"
    then obtain pre rest where pr: "parts = map Some pre @ None # rest" by blast
    show ?thesis
      using partsToBytes_nil_part [of pre rest, THEN conjunct1] pr
      by (auto split: if_splits outcome.splits sum.splits)
  qed
qed

text \<open>Both receivers hand the parts to \<^verbatim>\<open>partsToBlock\<close> in the order of receipt.\<close>

lemma recvParts_in_receive_order:
  "\<forall>r\<in>set rs. \<not> last_of r \<Longrightarrow> last_of r \<Longrightarrow>
   recvParts part_of last_of False (map Inr rs @ Inr r # rest) parts =
     Returns (Inr (parts @ map part_of rs @ [part_of r]))"
  by (induction rs arbitrary: parts) auto

text \<open>
  C6, as amended. \<^verbatim>\<open>partsToBlock\<close> reassembles by declared index, not by order of receipt.
  The accumulator accepts the parts exactly when there is at least one part, none of them
  is nil, and their indices are pairwise distinct and all below the number of parts (which
  is below \<open>2 ^ 32\<close>), in whatever order they were received; the bytes handed to the
  decoder are then the payloads concatenated in ascending order of index, and the result of
  \<^verbatim>\<open>partsToBlock\<close> is the decoding of those bytes. When the parts arrive with the indices
  \<open>0, 1, \<dots>\<close> in that order, this is the concatenation in order of receipt.
  \<^verbatim>\<open>partsToBlock\<close> panics on no parts at all, and at a nil part when the parts before it
  were accepted; it never blocks. The receivers collect the parts of a stream in the order
  of receipt, up to the first response flagged last.
\<close>

theorem partsToBlock_reassembles_by_index:
  "(partsToBytes parts = Returns (Inr bz) \<longleftrightarrow>
      (\<exists>ps. parts = map Some ps \<and> ps \<noteq> [] \<and> distinct (map idx ps)
         \<and> (\<forall>p\<in>set ps. idx p < length ps) \<and> length ps < 2 ^ 32
         \<and> bz = concat (map Bytes (sort_key idx ps))))
   \<and> (ps \<noteq> [] \<and> map idx ps = [0..<length ps] \<and> length ps < 2 ^ 32 \<longrightarrow>
        partsToBytes (map Some ps) = Returns (Inr (concat (map Bytes ps))))
   \<and> (partsToBytes parts = Panics \<longleftrightarrow>
        parts = [] \<or>
        (\<exists>pre rest. parts = map Some pre @ None # rest \<and> distinct (map idx pre)
           \<and> (\<forall>p\<in>set pre. idx p < unat (of_nat (length parts) :: uint32))))
   \<and> partsToBytes parts \<noteq> Blocks
   \<and> (partsToBytes parts = Returns (Inr bz) \<longrightarrow> partsToBlock L parts = Returns (decodeBlock L bz))
   \<and> (partsToBytes parts = Panics \<longrightarrow> partsToBlock L parts = Panics)
   \<and> ((\<forall>r\<in>set rs. \<not> last_of r) \<and> last_of r \<longrightarrow>
        recvParts part_of last_of False (map Inr rs @ Inr r # rest) acc =
          Returns (Inr (acc @ map part_of rs @ [part_of r])))"
proof (intro conjI impI)
  show "partsToBytes parts = Returns (Inr bz) \<longleftrightarrow>
      (\<exists>ps. parts = map Some ps \<and> ps \<noteq> [] \<and> distinct (map idx ps)
         \<and> (\<forall>p\<in>set ps. idx p < length ps) \<and> length ps < 2 ^ 32
         \<and> bz = concat (map Bytes (sort_key idx ps)))"
  proof
    assume a: "partsToBytes parts = Returns (Inr bz)"
    then have n: "None \<notin> set parts" by (rule partsToBytes_accepted_no_nil)
    from parts_split [of parts] have "\<exists>xs. parts = map Some xs"
    proof
      assume "\<exists>xs. parts = map Some xs"
      then show ?thesis .
    next
      assume "\<exists>pre rest. parts = map Some pre @ None # rest"
      then obtain pre rest where "parts = map Some pre @ None # rest" by (elim exE)
      then have "None \<in> set parts" by simp
      with n show ?thesis by simp
    qed
    then obtain xs where xs: "parts = map Some xs" by (rule exE)
    with a have "partsToBytes (map Some xs) = Returns (Inr bz)" by simp
    then have "xs \<noteq> [] \<and> distinct (map idx xs) \<and> (\<forall>p\<in>set xs. idx p < length xs)
        \<and> length xs < 2 ^ 32 \<and> bz = concat (map Bytes (sort_key idx xs))"
      by (rule partsToBytes_accepts_iff [THEN iffD1])
    with xs have "parts = map Some xs \<and> xs \<noteq> [] \<and> distinct (map idx xs)
        \<and> (\<forall>p\<in>set xs. idx p < length xs)
        \<and> length xs < 2 ^ 32 \<and> bz = concat (map Bytes (sort_key idx xs))" by simp
    then show "\<exists>ps. parts = map Some ps \<and> ps \<noteq> [] \<and> distinct (map idx ps)
         \<and> (\<forall>p\<in>set ps. idx p < length ps) \<and> length ps < 2 ^ 32
         \<and> bz = concat (map Bytes (sort_key idx ps))" by (rule exI)
  next
    assume "\<exists>ps. parts = map Some ps \<and> ps \<noteq> [] \<and> distinct (map idx ps)
         \<and> (\<forall>p\<in>set ps. idx p < length ps) \<and> length ps < 2 ^ 32
         \<and> bz = concat (map Bytes (sort_key idx ps))"
    then obtain xs where xs: "parts = map Some xs"
      and r: "xs \<noteq> [] \<and> distinct (map idx xs) \<and> (\<forall>p\<in>set xs. idx p < length xs)
        \<and> length xs < 2 ^ 32 \<and> bz = concat (map Bytes (sort_key idx xs))" by (elim exE conjE) simp
    from r have "partsToBytes (map Some xs) = Returns (Inr bz)"
      by (rule partsToBytes_accepts_iff [THEN iffD2])
    with xs show "partsToBytes parts = Returns (Inr bz)" by simp
  qed
  show "partsToBytes parts = Panics \<longleftrightarrow>
        parts = [] \<or>
        (\<exists>pre rest. parts = map Some pre @ None # rest \<and> distinct (map idx pre)
           \<and> (\<forall>p\<in>set pre. idx p < unat (of_nat (length parts) :: uint32)))"
    by (rule partsToBytes_panics_iff)
  show "partsToBytes parts \<noteq> Blocks" by (rule partsToBytes_never_blocks)
next
  assume "ps \<noteq> [] \<and> map idx ps = [0..<length ps] \<and> length ps < 2 ^ 32"
  then show "partsToBytes (map Some ps) = Returns (Inr (concat (map Bytes ps)))"
    using partsToBytes_in_sequence [of ps] by simp
next
  assume "partsToBytes parts = Returns (Inr bz)"
  then show "partsToBlock L parts = Returns (decodeBlock L bz)"
    by (simp add: partsToBlock_def)
next
  assume "partsToBytes parts = Panics"
  then show "partsToBlock L parts = Panics"
    by (simp add: partsToBlock_def)
next
  assume "(\<forall>r\<in>set rs. \<not> last_of r) \<and> last_of r"
  then have a1: "\<forall>r\<in>set rs. \<not> last_of r" and a2: "last_of r" by simp_all
  show "recvParts part_of last_of False (map Inr rs @ Inr r # rest) acc =
          Returns (Inr (acc @ map part_of rs @ [part_of r]))"
    by (rule recvParts_in_receive_order [OF a1 a2])
qed

text \<open>
  Two parts received with index 1 first are accepted and read back in index order; the
  same two parts in sequence give the same bytes; no parts, and a nil part after an
  accepted one, panic; the by-height receiver hands over the parts as received.
\<close>

theorem partsToBlock_reassembles_by_index_witness:
  "distinct (map idx [\<lparr>Index = 1, Bytes = [121]\<rparr>, \<lparr>Index = 0, Bytes = [120]\<rparr>])
   \<and> concat (map Bytes (sort_key idx [\<lparr>Index = 1, Bytes = [121]\<rparr>, \<lparr>Index = 0, Bytes = [120]\<rparr>])) = [120, 121]
   \<and> partsToBytes [Some \<lparr>Index = 1, Bytes = [121]\<rparr>, Some \<lparr>Index = 0, Bytes = [120]\<rparr>] = Returns (Inr [120, 121])
   \<and> partsToBlock demo_lib [Some \<lparr>Index = 1, Bytes = [121]\<rparr>, Some \<lparr>Index = 0, Bytes = [120]\<rparr>] =
        Returns (Some \<lparr>Header = [120], Data = [121]\<rparr>, None)
   \<and> partsToBytes [Some \<lparr>Index = 0, Bytes = [120]\<rparr>, Some \<lparr>Index = 1, Bytes = [121]\<rparr>] = Returns (Inr [120, 121])
   \<and> partsToBytes [] = Panics
   \<and> partsToBytes [Some \<lparr>Index = 0, Bytes = [120]\<rparr>, None] = Panics
   \<and> partsToBlock demo_lib [Some \<lparr>Index = 0, Bytes = [120]\<rparr>, None] = Panics
   \<and> recvParts BlockPart IsLast False whole_stream [] =
        Returns (Inr [Some \<lparr>Index = 0, Bytes = [120]\<rparr>, Some \<lparr>Index = 1, Bytes = [121]\<rparr>])"
proof -
  let ?p0 = "\<lparr>Index = 0, Bytes = [120]\<rparr> :: pb_Part"
  let ?p1 = "\<lparr>Index = 1, Bytes = [121]\<rparr> :: pb_Part"
  let ?swapped = "[?p1, ?p0]"
  let ?inorder = "[?p0, ?p1]"
  have d: "distinct (map idx ?swapped)" by simp
  have c: "concat (map Bytes (sort_key idx ?swapped)) = [120, 121]" by simp
  have "[Some ?p1, Some ?p0] = map Some ?swapped \<and> ?swapped \<noteq> [] \<and> distinct (map idx ?swapped)
      \<and> (\<forall>p\<in>set ?swapped. idx p < length ?swapped) \<and> length ?swapped < 2 ^ 32
      \<and> [120, 121] = concat (map Bytes (sort_key idx ?swapped))" by simp
  then have "\<exists>ps. [Some ?p1, Some ?p0] = map Some ps \<and> ps \<noteq> [] \<and> distinct (map idx ps)
      \<and> (\<forall>p\<in>set ps. idx p < length ps) \<and> length ps < 2 ^ 32
      \<and> [120, 121] = concat (map Bytes (sort_key idx ps))" by (rule exI)
  then have r: "partsToBytes [Some ?p1, Some ?p0] = Returns (Inr [120, 121])"
    by (rule partsToBlock_reassembles_by_index [where parts = "[Some ?p1, Some ?p0]"
          and bz = "[120, 121]", THEN conjunct1, THEN iffD2])
  have "partsToBlock demo_lib [Some ?p1, Some ?p0] = Returns (decodeBlock demo_lib [120, 121])"
    using partsToBlock_reassembles_by_index [where parts = "[Some ?p1, Some ?p0]"
        and bz = "[120, 121]" and L = demo_lib,
        THEN conjunct2, THEN conjunct2, THEN conjunct2, THEN conjunct2, THEN conjunct1] r
    by (rule mp)
  then have k: "partsToBlock demo_lib [Some ?p1, Some ?p0] =
      Returns (Some \<lparr>Header = [120], Data = [121]\<rparr>, None)"
    by (simp add: decodeBlock_def demo_lib_def)
  have s: "?inorder \<noteq> [] \<and> map idx ?inorder = [0..<length ?inorder] \<and> length ?inorder < 2 ^ 32"
    by (simp add: upt_rec)
  have "partsToBytes (map Some ?inorder) = Returns (Inr (concat (map Bytes ?inorder)))"
    using partsToBlock_reassembles_by_index [where ps = ?inorder, THEN conjunct2, THEN conjunct1] s
    by (rule mp)
  then have i: "partsToBytes [Some ?p0, Some ?p1] = Returns (Inr [120, 121])" by simp
  have "([] :: pb_Part option list) = [] \<or>
        (\<exists>pre rest. ([] :: pb_Part option list) = map Some pre @ None # rest \<and> distinct (map idx pre)
           \<and> (\<forall>p\<in>set pre. idx p < unat (of_nat (length ([] :: pb_Part option list)) :: uint32)))"
    by simp
  then have e: "partsToBytes [] = Panics"
    by (rule partsToBlock_reassembles_by_index [where parts = "[]",
          THEN conjunct2, THEN conjunct2, THEN conjunct1, THEN iffD2])
  have two: "unat (of_nat (length [Some ?p0, None]) :: uint32) = 2" by simp
  have "[Some ?p0, None] = map Some [?p0] @ None # [] \<and> distinct (map idx [?p0])
        \<and> (\<forall>p\<in>set [?p0]. idx p < unat (of_nat (length [Some ?p0, None]) :: uint32))"
    unfolding two by simp
  then have "\<exists>rest. [Some ?p0, None] = map Some [?p0] @ None # rest \<and> distinct (map idx [?p0])
        \<and> (\<forall>p\<in>set [?p0]. idx p < unat (of_nat (length [Some ?p0, None]) :: uint32))"
    by (rule exI)
  then have "\<exists>pre rest. [Some ?p0, None] = map Some pre @ None # rest \<and> distinct (map idx pre)
        \<and> (\<forall>p\<in>set pre. idx p < unat (of_nat (length [Some ?p0, None]) :: uint32))"
    by (rule exI)
  then have "[Some ?p0, None] = [] \<or>
        (\<exists>pre rest. [Some ?p0, None] = map Some pre @ None # rest \<and> distinct (map idx pre)
        \<and> (\<forall>p\<in>set pre. idx p < unat (of_nat (length [Some ?p0, None]) :: uint32)))"
    by (rule disjI2)
  then have g: "partsToBytes [Some ?p0, None] = Panics"
    by (rule partsToBlock_reassembles_by_index [where parts = "[Some ?p0, None]",
          THEN conjunct2, THEN conjunct2, THEN conjunct1, THEN iffD2])
  have h: "partsToBlock demo_lib [Some ?p0, None] = Panics"
    using partsToBlock_reassembles_by_index [where parts = "[Some ?p0, None]" and L = demo_lib,
        THEN conjunct2, THEN conjunct2, THEN conjunct2, THEN conjunct2, THEN conjunct2,
        THEN conjunct1] g
    by (rule mp)
  have n: "(\<forall>r\<in>set [first_resp ?p0 False]. \<not> IsLast r) \<and> IsLast (next_resp ?p1 True)"
    by (simp add: first_resp_def next_resp_def)
  have "recvParts BlockPart IsLast False
          (map Inr [first_resp ?p0 False] @ Inr (next_resp ?p1 True) # []) [] =
        Returns (Inr ([] @ map BlockPart [first_resp ?p0 False]
                   @ [BlockPart (next_resp ?p1 True)]))"
    using partsToBlock_reassembles_by_index [where rs = "[first_resp ?p0 False]"
        and r = "next_resp ?p1 True" and last_of = IsLast
        and part_of = BlockPart and rest = "[]" and acc = "[]",
        THEN conjunct2, THEN conjunct2, THEN conjunct2, THEN conjunct2, THEN conjunct2,
        THEN conjunct2] n
    by (rule mp)
  then have o: "recvParts BlockPart IsLast False whole_stream [] =
      Returns (Inr [Some ?p0, Some ?p1])"
    by (simp add: whole_stream_def first_resp_def next_resp_def)
  from d c r k i e g h o show ?thesis by blast
qed

text \<open>
  C6 as stated fails on the same two parts. Received with index 1 first they are accepted,
  the bytes are not the payloads in order of receipt, and they are the very bytes of the
  parts received in sequence; so \<^verbatim>\<open>partsToBlock\<close> returns for them what it returns for the
  parts in sequence, whatever the decoder does with the bytes.
\<close>

theorem partsToBlock_receive_order_counterexample:
  "partsToBytes [Some \<lparr>Index = 1, Bytes = [121]\<rparr>, Some \<lparr>Index = 0, Bytes = [120]\<rparr>] = Returns (Inr [120, 121])
   \<and> concat (map Bytes [\<lparr>Index = 1, Bytes = [121]\<rparr>, \<lparr>Index = 0, Bytes = [120]\<rparr>]) = [121, 120]
   \<and> partsToBytes [Some \<lparr>Index = 0, Bytes = [120]\<rparr>, Some \<lparr>Index = 1, Bytes = [121]\<rparr>] = Returns (Inr [120, 121])
   \<and> (\<forall>L. partsToBlock L [Some \<lparr>Index = 1, Bytes = [121]\<rparr>, Some \<lparr>Index = 0, Bytes = [120]\<rparr>] =
            partsToBlock L [Some \<lparr>Index = 0, Bytes = [120]\<rparr>, Some \<lparr>Index = 1, Bytes = [121]\<rparr>])"
proof -
  have a: "partsToBytes [Some \<lparr>Index = 1, Bytes = [121]\<rparr>, Some \<lparr>Index = 0, Bytes = [120]\<rparr>] =
      Returns (Inr [120, 121])" by code_simp
  have b: "concat (map Bytes [\<lparr>Index = 1, Bytes = [121]\<rparr>, \<lparr>Index = 0, Bytes = [120]\<rparr>]) = [121, 120]"
    by simp
  have c: "partsToBytes [Some \<lparr>Index = 0, Bytes = [120]\<rparr>, Some \<lparr>Index = 1, Bytes = [121]\<rparr>] =
      Returns (Inr [120, 121])" by code_simp
  have "\<forall>L. partsToBlock L [Some \<lparr>Index = 1, Bytes = [121]\<rparr>, Some \<lparr>Index = 0, Bytes = [120]\<rparr>] =
            partsToBlock L [Some \<lparr>Index = 0, Bytes = [120]\<rparr>, Some \<lparr>Index = 1, Bytes = [121]\<rparr>]"
    by (simp add: partsToBlock_def a c)
  with a b c show ?thesis by blast
qed

subsection \<open>Height resolution\<close>

text \<open>
  C7. For a non-nil height \<open>h\<close>, \<^verbatim>\<open>resolveHeight\<close> returns \<open>h\<close> and leaves the state as
  it is: no remote call, no check against the chain. For a nil height it issues exactly
  one status query and nothing else. When the query fails, its error is returned as it is;
  when the reply reports a latest block height, that height is returned; a nil reply and
  a reply with no \<^verbatim>\<open>SyncInfo\<close> report none, and there the unchecked read of
  \<^verbatim>\<open>status.SyncInfo.LatestBlockHeight\<close> panics.
\<close>

theorem resolveHeight_contract:
  "resolveHeight c (Some h) s = (Returns (Inr h), s)
   \<and> trace (snd (resolveHeight c None s)) = trace s @ [Call StatusRequest]
   \<and> world (snd (resolveHeight c None s)) = snd (client_Status c (world s))
   \<and> fst (resolveHeight c None s) =
        (case fst (client_Status c (world s)) of
           Inl err \<Rightarrow> Returns (Inl err)
         | Inr None \<Rightarrow> Panics
         | Inr (Some status) \<Rightarrow>
             (case SyncInfo status of
                None \<Rightarrow> Panics
              | Some info \<Rightarrow> Returns (Inr (LatestBlockHeight info))))
   \<and> doneCh (snd (resolveHeight c None s)) = doneCh s
   \<and> cancel (snd (resolveHeight c None s)) = cancel s"
  by (simp add: resolveHeight_def rpc_def split: prod.splits sum.splits option.splits)

text \<open>The three replies on a concrete node: a failed query, a reply with a height, a reply
  with no \<^verbatim>\<open>SyncInfo\<close>.\<close>

lemma resolveHeight_replies:
  "fst (resolveHeight (c\<lparr>client_Status := \<lambda>w. (Inl (TransportError ''down''), w)\<rparr>) None s) =
     Returns (Inl (TransportError ''down''))
   \<and> fst (resolveHeight (demo_client [] [] [] []) None (NewBlockFetcher 100)) = Returns (Inr 100)
   \<and> fst (resolveHeight (c\<lparr>client_Status := \<lambda>w. (Inr (Some \<lparr>SyncInfo = None\<rparr>), w)\<rparr>) None s) = Panics
   \<and> fst (resolveHeight (c\<lparr>client_Status := \<lambda>w. (Inr None, w)\<rparr>) None s) = Panics"
  by (simp add: resolveHeight_def rpc_def demo_client_def NewBlockFetcher_def)

subsection \<open>A stream that breaks\<close>

lemma recvParts_error_before_last:
  "\<forall>r\<in>set rs. \<not> last_of r \<Longrightarrow>
   recvParts part_of last_of False (map Inr rs @ Inl e # rest) parts = Returns (Inl e)"
  by (induction rs arbitrary: parts) auto

lemma receiveBlockByHeight_error_before_last:
  assumes "\<forall>r\<in>set rs. \<not> IsLast r"
  shows "\<exists>err. receiveBlockByHeight L (map Inr rs @ Inl e # rest) = Returns (failed_by_height (Some err))"
proof (cases rs)
  case Nil
  then show ?thesis by (auto simp: receiveBlockByHeight_def)
next
  case (Cons r rs')
  with assms have nl: "\<not> IsLast r" "\<forall>r\<in>set rs'. \<not> IsLast r" by auto
  show ?thesis
    using nl(1) recvParts_error_before_last [OF nl(2), of BlockPart e rest "[BlockPart r]"]
    by (auto simp: Cons receiveBlockByHeight_def split: sum.splits)
qed

text \<open>
  C8. When the by-height stream fails at some \<^verbatim>\<open>Recv\<close> before any response flagged last
  has arrived, \<^verbatim>\<open>GetBlock\<close> returns an error and a nil block, and \<^verbatim>\<open>GetSignedBlock\<close> returns
  an error: nothing is built from the parts received so far, whatever the stream would
  have delivered afterwards. Neither call touches the fields of the fetcher, which holds
  no block, part or stream between calls.
\<close>

theorem stream_error_aborts_fetch:
  assumes "resolveHeight c height s = (Returns (Inr h), s1)"
      and "fst (client_BlockByHeight c h (world s1)) = Inr (map Inr rs @ Inl e # rest)"
      and "\<forall>r\<in>set rs. \<not> IsLast r"
  shows "(\<exists>err. fst (GetBlock c L height s) = Returns (None, Some err))
       \<and> (\<exists>err. fst (GetSignedBlock c L height s) = Returns (Inl err))
       \<and> doneCh (snd (GetBlock c L height s)) = doneCh s
       \<and> cancel (snd (GetBlock c L height s)) = cancel s
       \<and> doneCh (snd (GetSignedBlock c L height s)) = doneCh s
       \<and> cancel (snd (GetSignedBlock c L height s)) = cancel s"
proof -
  obtain err where r: "receiveBlockByHeight L (map Inr rs @ Inl e # rest) = Returns (failed_by_height (Some err))"
    using receiveBlockByHeight_error_before_last [OF assms(3)] by blast
  have "fst (GetBlock c L height s) = Returns (None, Some err)"
    using assms(1,2) r
    by (cases "client_BlockByHeight c h (world s1)")
       (simp add: GetBlock_def rpc_def failed_by_height_def)
  moreover have "fst (GetSignedBlock c L height s) = Returns (Inl err)"
    using assms(1,2) r
    by (cases "client_BlockByHeight c h (world s1)")
       (simp add: GetSignedBlock_def rpc_def failed_by_height_def)
  ultimately show ?thesis
    using GetBlock_frame [of c L height s] GetSignedBlock_frame [of c L height s] by blast
qed

text \<open>
  Four parts of which the third does not arrive: the first two responses carry parts 0
  and 1, the third \<^verbatim>\<open>Recv\<close> fails, and the script would still hold the last part.
\<close>

theorem stream_error_aborts_fetch_witness:
  "resolveHeight (demo_client [] broken_stream [] []) None (NewBlockFetcher 100) =
     (Returns (Inr 100),
      \<lparr>world = 101, trace = [Call StatusRequest], doneCh = None, cancel = None, fresh = 0\<rparr>)
   \<and> broken_stream =
       map Inr [first_resp \<lparr>Index = 0, Bytes = [120]\<rparr> False, next_resp \<lparr>Index = 1, Bytes = [121]\<rparr> False]
         @ Inl (TransportError ''reset'') # [Inr (next_resp \<lparr>Index = 3, Bytes = [123]\<rparr> True)]
   \<and> \<not> IsLast (first_resp \<lparr>Index = 0, Bytes = [120]\<rparr> False)
   \<and> \<not> IsLast (next_resp \<lparr>Index = 1, Bytes = [121]\<rparr> False)
   \<and> (\<exists>err. fst (GetBlock (demo_client [] broken_stream [] []) demo_lib None (NewBlockFetcher 100))
               = Returns (None, Some err))
   \<and> (\<exists>err. fst (GetSignedBlock (demo_client [] broken_stream [] []) demo_lib None (NewBlockFetcher 100))
               = Returns (Inl err))
   \<and> fst (GetBlock (demo_client [] broken_stream [] []) demo_lib None (NewBlockFetcher 100))
        = Returns (None, Some (TransportError ''reset''))"
proof -
  let ?rs = "[first_resp \<lparr>Index = 0, Bytes = [120]\<rparr> False, next_resp \<lparr>Index = 1, Bytes = [121]\<rparr> False]"
  let ?s1 = "\<lparr>world = 101 :: int64, trace = [Call StatusRequest], doneCh = None, cancel = None, fresh = 0\<rparr>"
  have a: "resolveHeight (demo_client [] broken_stream [] []) None (NewBlockFetcher 100) =
      (Returns (Inr 100), ?s1)"
    by (simp add: resolveHeight_def rpc_def demo_client_def NewBlockFetcher_def)
  have b: "broken_stream = map Inr ?rs @ Inl (TransportError ''reset'') # [Inr (next_resp \<lparr>Index = 3, Bytes = [123]\<rparr> True)]"
    by (simp add: broken_stream_def)
  have b': "fst (client_BlockByHeight (demo_client [] broken_stream [] []) 100 (world ?s1)) =
       Inr (map Inr ?rs @ Inl (TransportError ''reset'') # [Inr (next_resp \<lparr>Index = 3, Bytes = [123]\<rparr> True)])"
    by (simp add: demo_client_def broken_stream_def)
  have n: "\<forall>r\<in>set ?rs. \<not> IsLast r" by (simp add: first_resp_def next_resp_def)
  have e: "fst (GetBlock (demo_client [] broken_stream [] []) demo_lib None (NewBlockFetcher 100))
        = Returns (None, Some (TransportError ''reset''))"
    by (simp add: GetBlock_def resolveHeight_def rpc_def receiveBlockByHeight_def failed_by_height_def
        broken_stream_def demo_defs)
  from stream_error_aborts_fetch [OF a b' n, of demo_lib] a b n e show ?thesis by simp
qed

subsection \<open>Commit or validator set not found\<close>

text \<open>
  C9. A node at height 100 that answers the commit query (and the validator-set query) with
  a response that carries no commit (no validator set), asked with a nil height: the status
  query resolves the height to 100, the query goes out at 100, and the error that comes
  back is built from the pointer \<^verbatim>\<open>height\<close>, which is nil, not from the height 100 that
  was queried.
\<close>

theorem not_found_error_names_pointer:
  "Commit (demo_client [] [] [] []) demo_lib None (NewBlockFetcher 100) =
     (Returns (Inl (ErrCommitNotFound None)),
      \<lparr>world = 101, trace = [Call StatusRequest, Call (CommitRequest 100)],
       doneCh = None, cancel = None, fresh = 0\<rparr>)
   \<and> ValidatorSet (demo_client [] [] [] []) demo_lib None (NewBlockFetcher 100) =
     (Returns (Inl (ErrValidatorSetNotFound None)),
      \<lparr>world = 101, trace = [Call StatusRequest, Call (ValidatorSetRequest 100)],
       doneCh = None, cancel = None, fresh = 0\<rparr>)"
  by (simp add: Commit_def ValidatorSet_def resolveHeight_def rpc_def demo_defs)

text \<open>The rest of the claim holds of the code: an error of the remote call is returned as
  it is, and the not-found error is returned when the call succeeds with a response that
  carries no commit (no validator set). A nil response is dereferenced.\<close>

lemma Commit_outcomes:
  "resolveHeight c height s = (Returns (Inr h), s1) \<Longrightarrow>
   fst (Commit c L height s) =
     (case fst (client_Commit c h (world s1)) of
        Inl err \<Rightarrow> Returns (Inl err)
      | Inr None \<Rightarrow> Panics
      | Inr (Some res) \<Rightarrow>
          (case res_Commit res of
             None \<Rightarrow> Returns (Inl (ErrCommitNotFound height))
           | Some cp \<Rightarrow> Returns (CommitFromProto L (Some cp))))"
  by (auto simp: Commit_def rpc_def split: prod.splits sum.splits option.splits outcome.splits)

lemma ValidatorSet_outcomes:
  "resolveHeight c height s = (Returns (Inr h), s1) \<Longrightarrow>
   fst (ValidatorSet c L height s) =
     (case fst (client_ValidatorSet c h (world s1)) of
        Inl err \<Rightarrow> Returns (Inl err)
      | Inr None \<Rightarrow> Panics
      | Inr (Some res) \<Rightarrow>
          (case res_ValidatorSet res of
             None \<Rightarrow> Returns (Inl (ErrValidatorSetNotFound height))
           | Some vp \<Rightarrow> Returns (ValidatorSetFromProto L (Some vp))))"
  by (auto simp: ValidatorSet_def rpc_def split: prod.splits sum.splits option.splits outcome.splits)

subsection \<open>Stop before any subscription\<close>

text \<open>
  C10. A fetcher fresh from \<^verbatim>\<open>NewBlockFetcher\<close> has a nil \<^verbatim>\<open>cancel\<close> and a nil \<^verbatim>\<open>doneCh\<close>,
  and \<^verbatim>\<open>Stop\<close> on it panics at the call of \<^verbatim>\<open>cancel\<close>, as it does on every fetcher whose
  \<^verbatim>\<open>cancel\<close> is nil. No operation but \<^verbatim>\<open>SubscribeNewBlockEvent\<close> assigns the two fields;
  \<^verbatim>\<open>SubscribeNewBlockEvent\<close> sets both, also when the subscription itself fails, and after it
  \<^verbatim>\<open>Stop\<close> does not panic.
\<close>

theorem Stop_without_subscription_panics:
  "cancel (NewBlockFetcher w) = None \<and> doneCh (NewBlockFetcher w) = None
   \<and> fst (Stop env (NewBlockFetcher w)) = Panics
   \<and> fst (Stop env (s\<lparr>cancel := None\<rparr>)) = Panics
   \<and> cancel (snd (GetBlock c L height s)) = cancel s \<and> doneCh (snd (GetBlock c L height s)) = doneCh s
   \<and> cancel (snd (GetSignedBlock c L height s)) = cancel s
   \<and> doneCh (snd (GetSignedBlock c L height s)) = doneCh s
   \<and> cancel (snd (GetBlockByHash c L hash s)) = cancel s
   \<and> doneCh (snd (GetBlockByHash c L hash s)) = doneCh s
   \<and> cancel (snd (GetBlockInfo c L height s)) = cancel s
   \<and> doneCh (snd (GetBlockInfo c L height s)) = doneCh s
   \<and> cancel (snd (Commit c L height s)) = cancel s \<and> doneCh (snd (Commit c L height s)) = doneCh s
   \<and> cancel (snd (ValidatorSet c L height s)) = cancel s
   \<and> doneCh (snd (ValidatorSet c L height s)) = doneCh s
   \<and> cancel (snd (IsSyncing c s)) = cancel s \<and> doneCh (snd (IsSyncing c s)) = doneCh s
   \<and> cancel (snd (Stop env s)) = cancel s \<and> doneCh (snd (Stop env s)) = doneCh s
   \<and> cancel (snd (SubscribeNewBlockEvent c s)) = Some (fresh s)
   \<and> doneCh (snd (SubscribeNewBlockEvent c s)) = Some (fresh s + 1)
   \<and> fst (Stop env (snd (SubscribeNewBlockEvent c s))) \<noteq> Panics"
proof -
  have stop: "cancel (snd (Stop env s)) = cancel s \<and> doneCh (snd (Stop env s)) = doneCh s"
    by (simp add: Stop_def Let_def split: option.splits)
  have sub: "cancel (snd (SubscribeNewBlockEvent c s)) = Some (fresh s)
     \<and> doneCh (snd (SubscribeNewBlockEvent c s)) = Some (fresh s + 1)"
    by (simp add: SubscribeNewBlockEvent_def rpc_def Let_def split: prod.splits sum.splits)
  have fresh_panics: "cancel (NewBlockFetcher w) = None \<and> doneCh (NewBlockFetcher w) = None
     \<and> fst (Stop env (NewBlockFetcher w)) = Panics \<and> fst (Stop env (s\<lparr>cancel := None\<rparr>)) = Panics"
    by (simp add: NewBlockFetcher_def Stop_def)
  have after: "fst (Stop env (snd (SubscribeNewBlockEvent c s))) \<noteq> Panics"
    using sub by (simp add: Stop_def Let_def split: option.splits)
  show ?thesis
    using stop sub fresh_panics after GetBlock_frame [of c L height s]
      GetSignedBlock_frame [of c L height s] GetBlockByHash_frame [of c L hash s]
      GetBlockInfo_frame [of c L height s] Commit_frame [of c L height s]
      ValidatorSet_frame [of c L height s] IsSyncing_frame [of c s]
    by simp
qed

end
